theory Spec2Isabelle
  imports Main "HOL-Library.Sublist" "HOL-Library.AList"
begin

section \<open>JavaScript values and the object store\<close>

text \<open>
  The engine of \<^verbatim>\<open>src/index.ts\<close> is dynamically typed: it receives the query document,
  the resolver registry and the context as arbitrary JavaScript values and inspects them
  with truthiness tests and with the \<^verbatim>\<open>typy\<close> predicates. Values are therefore modelled
  dynamically. Objects, arrays and functions live in a store and are referred to by
  address, so that identity (\<^verbatim>\<open>===\<close> on objects), aliasing and in-place mutation are
  explicit. Numbers are integers (the engine does no arithmetic on data).
\<close>

type_synonym addr = nat

datatype jsval = Undefined | Null | Bool bool | Num int | Str string | Ref addr

text \<open>
  A stored object is a plain object (its own enumerable properties, in insertion order),
  an array, or a function. Plain objects carry no inherited properties. A function is a
  name \<open>Fn i\<close>; what it does when called is given by the table of resolver behaviours
  that every engine function takes as its parameter \<open>fenv\<close>.
\<close>

datatype hobj = Obj "(string \<times> jsval) list" | Arr "jsval list" | Fn nat

text \<open>
  \<open>Error\<close> is \<^verbatim>\<open>new Error(message)\<close>, \<open>TypeError\<close> is the error the JavaScript runtime raises
  itself (its text is the runtime's), \<open>Thrown\<close> is any other value a resolver throws or
  rejects with.
\<close>

datatype error = Error string | TypeError string | Thrown jsval

text \<open>
  The state of one execution: the store, the list of resolver invocations made so far
  (function, argument list, settled outcome), and the lines written by \<^verbatim>\<open>console.log\<close>.
  The invocation list is a record of what happened; the engine never reads it.
\<close>

record state =
  heap :: "hobj list"
  invocations :: "(nat \<times> jsval list \<times> (error + jsval)) list"
  console :: "string list"

text \<open>
  A resolver's \<^verbatim>\<open>invoke\<close> is an arbitrary caller-supplied asynchronous function. It is
  modelled by its settled outcome when awaited: from the argument list and the store it
  yields a value (\<open>Inr\<close>) or a rejection (\<open>Inl\<close>) and the store it leaves behind;
  \<open>None\<close> is a promise that never settles.
\<close>

type_synonym resolvers =
  "nat \<Rightarrow> jsval list \<Rightarrow> hobj list \<Rightarrow> ((error + jsval) \<times> hobj list) option"

definition lookup :: "hobj list \<Rightarrow> addr \<Rightarrow> hobj option" where
  "lookup h a = (if a < length h then Some (h ! a) else None)"

fun truthy :: "jsval \<Rightarrow> bool" where
  "truthy Undefined = False"
| "truthy Null = False"
| "truthy (Bool b) = b"
| "truthy (Num n) = (n \<noteq> 0)"
| "truthy (Str s) = (s \<noteq> [])"
| "truthy (Ref a) = True"

definition typeof :: "hobj list \<Rightarrow> jsval \<Rightarrow> string" where
  "typeof h v = (case v of
       Undefined \<Rightarrow> ''undefined''
     | Null \<Rightarrow> ''object''
     | Bool b \<Rightarrow> ''boolean''
     | Num n \<Rightarrow> ''number''
     | Str s \<Rightarrow> ''string''
     | Ref a \<Rightarrow> (case lookup h a of Some (Fn i) \<Rightarrow> ''function'' | _ \<Rightarrow> ''object''))"

text \<open>
  The three predicates of the \<^verbatim>\<open>typy\<close> library that the engine uses, on the value kinds
  of this model: \<^verbatim>\<open>t(x).isObject\<close> holds of plain objects only (not of arrays, functions,
  \<^verbatim>\<open>null\<close> or primitives), \<^verbatim>\<open>t(x).isArray\<close> is \<^verbatim>\<open>Array.isArray\<close>, \<^verbatim>\<open>t(x).isFunction\<close> is
  \<^verbatim>\<open>typeof x === 'function'\<close>.
\<close>

definition isObject :: "hobj list \<Rightarrow> jsval \<Rightarrow> bool" where
  "isObject h v = (case v of
       Ref a \<Rightarrow> (case lookup h a of Some (Obj ps) \<Rightarrow> True | _ \<Rightarrow> False)
     | _ \<Rightarrow> False)"

definition isArray :: "hobj list \<Rightarrow> jsval \<Rightarrow> bool" where
  "isArray h v = (case v of
       Ref a \<Rightarrow> (case lookup h a of Some (Arr xs) \<Rightarrow> True | _ \<Rightarrow> False)
     | _ \<Rightarrow> False)"

definition isFunction :: "hobj list \<Rightarrow> jsval \<Rightarrow> bool" where
  "isFunction h v = (case v of
       Ref a \<Rightarrow> (case lookup h a of Some (Fn i) \<Rightarrow> True | _ \<Rightarrow> False)
     | _ \<Rightarrow> False)"

subsection \<open>Numbers and property keys as strings\<close>

fun show_nat :: "nat \<Rightarrow> string" where
  "show_nat n =
     (if n < 10 then [''0123456789'' ! n]
      else show_nat (n div 10) @ [''0123456789'' ! (n mod 10)])"

declare show_nat.simps [simp del]

definition show_int :: "int \<Rightarrow> string" where
  "show_int i = (if i < 0 then CHR ''-'' # show_nat (nat (- i)) else show_nat (nat i))"

text \<open>
  \<open>to_string\<close> is the conversion applied by a template literal and by a computed
  property key. \<open>from\<close> is declared \<^verbatim>\<open>from?: string\<close>; a primitive of another type is
  converted as JavaScript does, and every object reference is rendered as
  \<^verbatim>\<open>[object Object]\<close> (arrays and functions print differently in JavaScript).
\<close>

definition to_string :: "jsval \<Rightarrow> string" where
  "to_string v = (case v of
       Undefined \<Rightarrow> ''undefined''
     | Null \<Rightarrow> ''null''
     | Bool b \<Rightarrow> (if b then ''true'' else ''false'')
     | Num n \<Rightarrow> show_int n
     | Str s \<Rightarrow> s
     | Ref a \<Rightarrow> ''[object Object]'')"

text \<open>
  \<open>array_index k\<close> is the number a key denotes when it is an array index (a canonical
  decimal numeral below \<open>2^32 - 1\<close>). \<^verbatim>\<open>Object.keys\<close> lists such keys first, in ascending
  order, then every other key in insertion order.
\<close>

definition digit_of :: "char \<Rightarrow> nat option" where
  "digit_of c = map_of (zip ''0123456789'' [0..<10]) c"

definition array_index :: "string \<Rightarrow> nat option" where
  "array_index k = (case those (map digit_of k) of
       None \<Rightarrow> None
     | Some ds \<Rightarrow>
         if ds = [] \<or> (hd ds = 0 \<and> 1 < length ds) then None
         else (let n = foldl (\<lambda>a d. 10 * a + d) 0 ds
               in if n < 4294967295 then Some n else None))"

definition own_keys :: "(string \<times> jsval) list \<Rightarrow> string list" where
  "own_keys ps = (let ks = remdups (map fst ps) in
     map snd (sort_key fst
       (List.map_filter (\<lambda>k. map_option (\<lambda>i. (i, k)) (array_index k)) ks))
     @ filter (\<lambda>k. array_index k = None) ks)"

definition own_prop :: "(string \<times> jsval) list \<Rightarrow> string \<Rightarrow> jsval" where
  "own_prop ps k = (case map_of ps k of None \<Rightarrow> Undefined | Some v \<Rightarrow> v)"

definition index_keys :: "nat \<Rightarrow> string list" where
  "index_keys n = map show_nat [0..<n]"

subsection \<open>Reading the store\<close>

text \<open>
  \<open>get_prop h v k\<close> is the property read \<^verbatim>\<open>v[k]\<close>: a \<open>TypeError\<close> on \<^verbatim>\<open>undefined\<close> and
  \<^verbatim>\<open>null\<close>, the own property of a plain object or \<^verbatim>\<open>undefined\<close> when it has none, an
  element or the length of an array or string. An address outside the store denotes no
  object of any kind.
\<close>

definition quoted :: "string \<Rightarrow> string" where
  "quoted k = [CHR 0x27] @ k @ [CHR 0x27]"

definition seq_prop :: "jsval list \<Rightarrow> string \<Rightarrow> jsval" where
  "seq_prop xs k =
     (if k = ''length'' then Num (int (length xs))
      else (case array_index k of
              Some i \<Rightarrow> (if i < length xs then xs ! i else Undefined)
            | None \<Rightarrow> Undefined))"

definition get_prop :: "hobj list \<Rightarrow> jsval \<Rightarrow> string \<Rightarrow> error + jsval" where
  "get_prop h v k = (case v of
       Undefined \<Rightarrow>
         Inl (TypeError (''Cannot read properties of undefined (reading '' @ quoted k @ '')''))
     | Null \<Rightarrow>
         Inl (TypeError (''Cannot read properties of null (reading '' @ quoted k @ '')''))
     | Str s \<Rightarrow> Inr (seq_prop (map (\<lambda>c. Str [c]) s) k)
     | Ref a \<Rightarrow> (case lookup h a of
                   Some (Obj ps) \<Rightarrow> Inr (own_prop ps k)
                 | Some (Arr xs) \<Rightarrow> Inr (seq_prop xs k)
                 | _ \<Rightarrow> Inr Undefined)
     | _ \<Rightarrow> Inr Undefined)"

text \<open>The own enumerable properties of a value, in the order of \<^verbatim>\<open>Object.keys\<close>.\<close>

definition own_entries :: "hobj list \<Rightarrow> jsval \<Rightarrow> (string \<times> jsval) list" where
  "own_entries h v = (case v of
       Str s \<Rightarrow> zip (index_keys (length s)) (map (\<lambda>c. Str [c]) s)
     | Ref a \<Rightarrow> (case lookup h a of
                   Some (Obj ps) \<Rightarrow> map (\<lambda>k. (k, own_prop ps k)) (own_keys ps)
                 | Some (Arr xs) \<Rightarrow> zip (index_keys (length xs)) xs
                 | _ \<Rightarrow> [])
     | _ \<Rightarrow> [])"

definition object_keys :: "hobj list \<Rightarrow> jsval \<Rightarrow> error + string list" where
  "object_keys h v = (case v of
       Undefined \<Rightarrow> Inl (TypeError ''Cannot convert undefined or null to object'')
     | Null \<Rightarrow> Inl (TypeError ''Cannot convert undefined or null to object'')
     | _ \<Rightarrow> Inr (map fst (own_entries h v)))"

section \<open>Computations: state, exceptions, divergence\<close>

text \<open>
  An engine function is asynchronous; awaited, it yields a value or throws, and it may
  change the store on the way. \<open>None\<close> stands for an execution that never settles.
  The state reached is kept when an exception is thrown.
\<close>

type_synonym 'a M = "state \<Rightarrow> ((error + 'a) \<times> state) option"

definition ret :: "'a \<Rightarrow> 'a M" where
  "ret x = (\<lambda>s. Some (Inr x, s))"

definition throw :: "error \<Rightarrow> 'a M" where
  "throw e = (\<lambda>s. Some (Inl e, s))"

definition bind :: "'a M \<Rightarrow> ('a \<Rightarrow> 'b M) \<Rightarrow> 'b M" where
  "bind m f = (\<lambda>s. case m s of
       None \<Rightarrow> None
     | Some (Inl e, s') \<Rightarrow> Some (Inl e, s')
     | Some (Inr x, s') \<Rightarrow> f x s')"

definition lift :: "(hobj list \<Rightarrow> error + 'a) \<Rightarrow> 'a M" where
  "lift f = (\<lambda>s. Some (f (heap s), s))"

definition test :: "(hobj list \<Rightarrow> bool) \<Rightarrow> bool M" where
  "test p = (\<lambda>s. Some (Inr (p (heap s)), s))"

definition type_of :: "jsval \<Rightarrow> string M" where
  "type_of v = (\<lambda>s. Some (Inr (typeof (heap s) v), s))"

definition getp :: "jsval \<Rightarrow> string \<Rightarrow> jsval M" where
  "getp v k = lift (\<lambda>h. get_prop h v k)"

definition keys :: "jsval \<Rightarrow> string list M" where
  "keys v = lift (\<lambda>h. object_keys h v)"

fun for_each :: "'a list \<Rightarrow> ('a \<Rightarrow> unit M) \<Rightarrow> unit M" where
  "for_each [] f = ret ()"
| "for_each (x # xs) f = bind (f x) (\<lambda>_. for_each xs f)"

text \<open>A new object gets the next free address.\<close>

definition alloc :: "hobj \<Rightarrow> jsval M" where
  "alloc ob = (\<lambda>s. Some (Inr (Ref (length (heap s))), s\<lparr>heap := heap s @ [ob]\<rparr>))"

text \<open>
  \<^verbatim>\<open>Object.assign({}, v)\<close>: a new plain object with the own enumerable properties of
  \<open>v\<close>; \<^verbatim>\<open>undefined\<close>, \<^verbatim>\<open>null\<close>, numbers and booleans have none.
\<close>

definition object_assign_empty :: "jsval \<Rightarrow> jsval M" where
  "object_assign_empty v = (\<lambda>s. alloc (Obj (own_entries (heap s) v)) s)"

text \<open>
  \<^verbatim>\<open>v.map((singleEntity) => Object.assign({}, singleEntity))\<close> on an array: the new array is
  created first, then one new plain object per element, in order.
\<close>

definition array_map_assign :: "jsval \<Rightarrow> jsval M" where
  "array_map_assign v = (\<lambda>s.
     case v of
       Ref a \<Rightarrow>
         (case lookup (heap s) a of
            Some (Arr xs) \<Rightarrow>
              (let h = heap s; n = length h
               in Some (Inr (Ref n),
                    s\<lparr>heap := h @ [Arr (map Ref [Suc n ..< Suc n + length xs])]
                                 @ map (\<lambda>x. Obj (own_entries h x)) xs\<rparr>))
          | _ \<Rightarrow> throw (TypeError ''resolvedEntity.map is not a function'') s)
     | _ \<Rightarrow> throw (TypeError ''resolvedEntity.map is not a function'') s)"

definition elements :: "jsval \<Rightarrow> jsval list M" where
  "elements v = lift (\<lambda>h.
     case v of
       Ref a \<Rightarrow> (case lookup h a of
                   Some (Arr xs) \<Rightarrow> Inr xs
                 | _ \<Rightarrow> Inl (TypeError ''parentEntity.map is not a function''))
     | _ \<Rightarrow> Inl (TypeError ''parentEntity.map is not a function''))"

text \<open>
  The assignment \<^verbatim>\<open>target[k] = v\<close>. On a plain object it replaces the property or appends
  a new one. The engine assigns only to \<^verbatim>\<open>output\<close> and to results of \<^verbatim>\<open>Object.assign\<close>,
  which are plain objects; a target of another kind is left as it is.
\<close>

definition set_prop :: "jsval \<Rightarrow> string \<Rightarrow> jsval \<Rightarrow> unit M" where
  "set_prop target k v = (\<lambda>s.
     case target of
       Undefined \<Rightarrow>
         throw (TypeError (''Cannot set properties of undefined (setting '' @ quoted k @ '')'')) s
     | Null \<Rightarrow>
         throw (TypeError (''Cannot set properties of null (setting '' @ quoted k @ '')'')) s
     | Ref a \<Rightarrow>
         (case lookup (heap s) a of
            Some (Obj ps) \<Rightarrow>
              Some (Inr (), s\<lparr>heap := (heap s)[a := Obj (AList.update k v ps)]\<rparr>)
          | _ \<Rightarrow> Some (Inr (), s))
     | _ \<Rightarrow> Some (Inr (), s))"

text \<open>
  The awaited call \<^verbatim>\<open>await f(args)\<close> of a value \<open>f\<close> read from a resolver object. A callee
  that is not a function raises the runtime's \<open>TypeError\<close>. The call is appended to the
  invocation list together with its outcome.
\<close>

definition call :: "resolvers \<Rightarrow> jsval \<Rightarrow> jsval list \<Rightarrow> jsval M" where
  "call fenv f args = (\<lambda>s.
     case f of
       Ref a \<Rightarrow>
         (case lookup (heap s) a of
            Some (Fn i) \<Rightarrow>
              (case fenv i args (heap s) of
                 None \<Rightarrow> None
               | Some (r, h') \<Rightarrow>
                   Some (r, s\<lparr>heap := h', invocations := invocations s @ [(i, args, r)]\<rparr>))
          | _ \<Rightarrow> throw (TypeError ''invoke is not a function'') s)
     | _ \<Rightarrow> throw (TypeError ''invoke is not a function'') s)"

text \<open>\<^verbatim>\<open>a || {}\<close>: the value itself when it is truthy, otherwise a new empty object.\<close>

definition or_empty_object :: "jsval \<Rightarrow> jsval M" where
  "or_empty_object a = (if truthy a then ret a else alloc (Obj []))"

section \<open>The engine\<close>

text \<open>
  The definitions below follow \<^verbatim>\<open>src/index.ts\<close> function by function and statement by
  statement; every property read of the source is a \<open>getp\<close>, every \<^verbatim>\<open>throw\<close> a \<open>throw\<close>.
\<close>

record IQueryGlobals =
  g_operationResolver :: jsval
  g_opName :: string
  g_context :: jsval

definition verbose :: "jsval \<Rightarrow> nat \<Rightarrow> string \<Rightarrow> unit M" where
  "verbose flag nestingLevel msg = (\<lambda>s.
     if truthy flag
     then Some (Inr (), s\<lparr>console := console s @ [replicate (nestingLevel * 4) CHR '' '' @ msg]\<rparr>)
     else Some (Inr (), s))"

definition createMissingQueryOperationErrorMessage :: "string \<Rightarrow> string" where
  "createMissingQueryOperationErrorMessage opName =
     ''\<newline>Query operation \"'' @ opName @ ''\" is not supported by the resolver.\<newline>''
     @ ''You must define a query resolver that looks like this:\<newline>''
     @ ''    const root = {\<newline>''
     @ ''        '' @ opName @ '': {\<newline>''
     @ ''            // ... Entity query resolvers go here.\<newline>''
     @ ''        },\<newline>''
     @ ''\<newline>''
     @ ''        // ... Other query operations go here.\<newline>''
     @ ''    };\<newline>''"

definition createMissingGlobalResolverErrorMessage ::
  "string \<Rightarrow> string \<Rightarrow> string \<Rightarrow> string \<Rightarrow> string" where
  "createMissingGlobalResolverErrorMessage opName entityTypeName queryKey outputLocation =
     ''\<newline>Failed to find global resolver for entity \"'' @ entityTypeName
     @ ''\" of operation \"'' @ opName @ ''\", outputting to \"'' @ queryKey
     @ ''\" in '' @ outputLocation @ ''.\<newline>\<newline>''
     @ ''You must define a query resolver that looks like this:\<newline>''
     @ ''    const root = {\<newline>''
     @ ''        '' @ opName @ '': {\<newline>''
     @ ''            '' @ entityTypeName @ '': async function (args, context) => {\<newline>''
     @ ''                if (args.something) {\<newline>''
     @ ''                    // ... Return a single entity that matches 'something'.\<newline>''
     @ ''                }\<newline>''
     @ ''                else {\<newline>''
     @ ''                    // ... Return the set of entities (you probably want to use pagination).\<newline>''
     @ ''                }\<newline>''
     @ ''            },\<newline>''
     @ ''\<newline>''
     @ ''            // ... Other resolvers go here.\<newline>''
     @ ''        },\<newline>''
     @ ''\<newline>''
     @ ''        // ... Other query operations go here.\<newline>''
     @ ''    };\<newline>''"

definition getOperationResolver :: "jsval \<Rightarrow> string \<Rightarrow> jsval M" where
  "getOperationResolver rootResolver opName =
     bind (getp rootResolver opName) (\<lambda>operationResolver.
     if \<not> truthy operationResolver
     then throw (Error (createMissingQueryOperationErrorMessage opName))
     else bind (test (\<lambda>h. isObject h operationResolver)) (\<lambda>is_object.
     if \<not> is_object
     then throw (Error (''Expected query resolver for \"'' @ opName @ ''\" to be an object.''))
     else ret operationResolver))"

definition getQueryOperation :: "jsval \<Rightarrow> string \<Rightarrow> jsval M" where
  "getQueryOperation rootQuery opName =
     bind (getp rootQuery opName) (\<lambda>queryOperation.
     if \<not> truthy queryOperation
     then throw (Error (''Query operation \"'' @ opName @ ''\" is missing from query.''))
     else bind (test (\<lambda>h. isObject h queryOperation)) (\<lambda>is_object.
     if \<not> is_object
     then throw (Error (''Expected query resolver for \"'' @ opName @ ''\" to be an object.''))
     else ret queryOperation))"

definition getGlobalEntityResolver ::
  "IQueryGlobals \<Rightarrow> jsval \<Rightarrow> string \<Rightarrow> string \<Rightarrow> nat \<Rightarrow> jsval M" where
  "getGlobalEntityResolver queryGlobals entityResolverName entityTypeName outputLocation nestingLevel =
     bind (getp (g_context queryGlobals) ''verbose'') (\<lambda>flag.
     bind (verbose flag nestingLevel
            (''Getting global entity resolver \"'' @ to_string entityResolverName
             @ ''\" to resolve entity type \"'' @ entityTypeName @ ''\".'')) (\<lambda>_.
     bind (getp (g_operationResolver queryGlobals) (to_string entityResolverName)) (\<lambda>entityResolver.
     if \<not> truthy entityResolver
     then throw (Error (createMissingGlobalResolverErrorMessage
                   (g_opName queryGlobals) entityTypeName entityTypeName outputLocation))
     else bind (getp entityResolver ''invoke'') (\<lambda>invoke.
     if \<not> truthy invoke
     then throw (Error (''Entity resolver \"'' @ entityTypeName
                   @ ''\" is missing an \"invoke\" function.''))
     else bind (getp entityResolver ''invoke'') (\<lambda>invoke.
     bind (test (\<lambda>h. isFunction h invoke)) (\<lambda>is_function.
     if \<not> is_function
     then throw (Error (''Expected \"invoke\" function for entity resolver \"'' @ entityTypeName
                   @ ''\" is to be a function.''))
     else ret entityResolver))))))"

text \<open>
  The conditional clone of lines 229-231 and 317-319:
  \<^verbatim>\<open>isArray ? resolved.map((e) => Object.assign({}, e)) : Object.assign({}, resolved)\<close>.
\<close>

definition clone_entity :: "bool \<Rightarrow> jsval \<Rightarrow> jsval M" where
  "clone_entity is_array resolvedEntity =
     (if is_array then array_map_assign resolvedEntity else object_assign_empty resolvedEntity)"

text \<open>\<^verbatim>\<open>q.from !== undefined ? q.from : name\<close>.\<close>

definition from_or :: "jsval \<Rightarrow> string \<Rightarrow> jsval M" where
  "from_or entityQuery name =
     bind (getp entityQuery ''from'') (\<lambda>from.
     if from \<noteq> Undefined then getp entityQuery ''from'' else ret (Str name))"

text \<open>
  \<open>resolveNestedEntity\<close> suspends once, at the \<^verbatim>\<open>await\<close> of line 316.
  \<open>resolveNestedEntity_start\<close> is the function up to and including that awaited call
  (lines 296-316); it returns \<open>nestedEntityLocalResolverName\<close> and \<open>resolvedEntity\<close>.
  \<open>resolveNestedEntity_finish\<close> is the rest (lines 317-329); its first parameter stands
  for the recursive call of \<open>resolveNestedEntities\<close>.
\<close>

definition resolveNestedEntity_start ::
  "resolvers \<Rightarrow> jsval \<Rightarrow> jsval \<Rightarrow> string \<Rightarrow> string \<Rightarrow> IQueryGlobals \<Rightarrow> nat \<Rightarrow> jsval
     \<Rightarrow> (jsval \<times> jsval) M" where
  "resolveNestedEntity_start fenv nestedEntityQuery parentEntityGlobalResolverName
       parentEntityTypeName nestedEntityTypeName queryGlobals nestingLevel parentEntity =
     bind (getp (g_context queryGlobals) ''verbose'') (\<lambda>flag.
     bind (verbose flag nestingLevel
            (''= Resolving nested entity \"'' @ nestedEntityTypeName @ ''\".'')) (\<lambda>_.
     bind (getGlobalEntityResolver queryGlobals parentEntityGlobalResolverName
            parentEntityTypeName (''parent entity \"'' @ parentEntityTypeName @ ''\"'')
            (nestingLevel + 1)) (\<lambda>parentEntityResolver.
     bind (from_or nestedEntityQuery nestedEntityTypeName) (\<lambda>nestedEntityLocalResolverName.
     bind (getp parentEntityResolver ''nested'') (\<lambda>nested.
     if \<not> truthy nested
     then throw (Error (''Failed to find nested resolvers for operation \"''
                   @ g_opName queryGlobals @ ''\" for nested entity \"''
                   @ to_string nestedEntityLocalResolverName @ ''\" under \"''
                   @ to_string parentEntityGlobalResolverName @ ''\".''))
     else bind (getp parentEntityResolver ''nested'') (\<lambda>nested.
     bind (getp nested (to_string nestedEntityLocalResolverName)) (\<lambda>nestedEntityResolver.
     if nestedEntityResolver = Undefined
     then throw (Error (''Failed to find nested resolver for operation \"''
                   @ g_opName queryGlobals @ ''\" for nested entity \"''
                   @ to_string nestedEntityLocalResolverName @ ''\" under \"''
                   @ to_string parentEntityGlobalResolverName @ ''\".''))
     else bind (getp nestedEntityResolver ''invoke'') (\<lambda>invoke.
     bind (getp nestedEntityQuery ''args'') (\<lambda>args.
     bind (or_empty_object args) (\<lambda>args.
     bind (call fenv invoke [parentEntity, args, g_context queryGlobals]) (\<lambda>resolvedEntity.
     ret (nestedEntityLocalResolverName, resolvedEntity))))))))))))"

definition resolveNestedEntity_finish ::
  "(jsval \<Rightarrow> jsval \<Rightarrow> jsval \<Rightarrow> string \<Rightarrow> IQueryGlobals \<Rightarrow> nat \<Rightarrow> unit M)
     \<Rightarrow> jsval \<Rightarrow> string \<Rightarrow> IQueryGlobals \<Rightarrow> nat \<Rightarrow> jsval \<Rightarrow> jsval \<times> jsval \<Rightarrow> unit M" where
  "resolveNestedEntity_finish resolveNested nestedEntityQuery nestedEntityTypeName
       queryGlobals nestingLevel parentEntity started =
     (case started of (nestedEntityLocalResolverName, resolvedEntity) \<Rightarrow>
     bind (test (\<lambda>h. isArray h resolvedEntity)) (\<lambda>is_array.
     bind (clone_entity is_array resolvedEntity) (\<lambda>clonedEntity.
     bind (set_prop parentEntity nestedEntityTypeName clonedEntity) (\<lambda>_.
     resolveNested nestedEntityQuery clonedEntity nestedEntityLocalResolverName
       nestedEntityTypeName queryGlobals (nestingLevel + 2)))))"

text \<open>
  \<^verbatim>\<open>await Promise.all(parentEntity.map((singleEntity) => resolveNestedEntity(...)))\<close>.
  Each call of the asynchronous \<open>resolveNestedEntity\<close> runs at once up to its \<^verbatim>\<open>await\<close>,
  whether or not an earlier one has thrown: \<open>start_all\<close> runs the first part for every
  element, in order, and collects the outcomes. \<^verbatim>\<open>Promise.all\<close> rejects as soon as one of
  the promises does; the model then throws the error of the first element that failed
  and leaves out what the surviving calls would still do. When every call has reached
  its resolver, the second parts run, one element after the other. (In JavaScript the
  second parts of different elements interleave at their own awaits; the model runs each
  to its end before the next.)
\<close>

fun start_all :: "('a \<Rightarrow> 'b M) \<Rightarrow> 'a list \<Rightarrow> ((error + 'b) list) M" where
  "start_all f [] = ret []"
| "start_all f (x # xs) = (\<lambda>s.
     case f x s of
       None \<Rightarrow> None
     | Some (r, s') \<Rightarrow> bind (start_all f xs) (\<lambda>rs. ret (r # rs)) s')"

definition promise_all_map :: "('a \<Rightarrow> 'b M) \<Rightarrow> ('a \<Rightarrow> 'b \<Rightarrow> unit M) \<Rightarrow> 'a list \<Rightarrow> unit M" where
  "promise_all_map start finish xs =
     bind (start_all start xs) (\<lambda>rs.
     case find isl rs of
       Some r \<Rightarrow> throw (projl r)
     | None \<Rightarrow> for_each (zip xs (map projr rs)) (\<lambda>(x, y). finish x y))"

text \<open>
  \<open>resolveNestedEntities\<close> and \<open>resolveNestedEntity\<close> call each other for as long as
  the query has \<^verbatim>\<open>resolve\<close> fields, and a query object may contain itself. The first
  argument bounds the depth of these calls; at depth \<open>0\<close> the result is \<open>None\<close>.
\<close>

primrec resolveNestedEntities ::
  "nat \<Rightarrow> resolvers \<Rightarrow> jsval \<Rightarrow> jsval \<Rightarrow> jsval \<Rightarrow> string \<Rightarrow> IQueryGlobals \<Rightarrow> nat \<Rightarrow> unit M" where
  "resolveNestedEntities 0 fenv entityQuery parentEntity parentEntityGlobalResolverName
       parentEntityTypeName queryGlobals nestingLevel = (\<lambda>s. None)"
| "resolveNestedEntities (Suc fuel) fenv entityQuery parentEntity parentEntityGlobalResolverName
       parentEntityTypeName queryGlobals nestingLevel =
     bind (getp entityQuery ''resolve'') (\<lambda>resolve.
     if truthy resolve then
       bind (getp entityQuery ''resolve'') (\<lambda>resolve.
       bind (keys resolve) (\<lambda>nestedEntityTypeNames.
       for_each nestedEntityTypeNames (\<lambda>nestedEntityTypeName.
         bind (getp entityQuery ''resolve'') (\<lambda>resolve.
         bind (getp resolve nestedEntityTypeName) (\<lambda>nestedEntityQuery.
         bind (test (\<lambda>h. isObject h nestedEntityQuery)) (\<lambda>is_object.
         if \<not> is_object
         then bind (type_of nestedEntityQuery) (\<lambda>type.
                throw (Error (''Unsupported type for \"resolve\" field: '' @ type @ ''.'')))
         else bind (test (\<lambda>h. isArray h parentEntity)) (\<lambda>is_array.
         if is_array then
           bind (elements parentEntity) (\<lambda>singleEntities.
           promise_all_map
             (resolveNestedEntity_start fenv nestedEntityQuery parentEntityGlobalResolverName
                parentEntityTypeName nestedEntityTypeName queryGlobals nestingLevel)
             (resolveNestedEntity_finish (\<lambda>q. resolveNestedEntities fuel fenv q)
                nestedEntityQuery nestedEntityTypeName queryGlobals nestingLevel)
             singleEntities)
         else
           bind (resolveNestedEntity_start fenv nestedEntityQuery parentEntityGlobalResolverName
                  parentEntityTypeName nestedEntityTypeName queryGlobals nestingLevel parentEntity)
             (resolveNestedEntity_finish (\<lambda>q. resolveNestedEntities fuel fenv q)
                nestedEntityQuery nestedEntityTypeName queryGlobals nestingLevel parentEntity))))))))
     else ret ())"

text \<open>
  \<open>resolveRootEntity\<close> suspends at the \<^verbatim>\<open>await\<close> of line 219.
  \<open>resolveRootEntity_start\<close> is the function up to and including that awaited call
  (lines 203-219); it returns \<open>entityQuery\<close>, \<open>entityResolverName\<close> and
  \<open>resolvedEntity\<close>. \<open>resolveRootEntity_finish\<close> is the rest (lines 221-241).
\<close>

definition resolveRootEntity_start ::
  "resolvers \<Rightarrow> jsval \<Rightarrow> string \<Rightarrow> IQueryGlobals \<Rightarrow> nat \<Rightarrow> (jsval \<times> jsval \<times> jsval) M" where
  "resolveRootEntity_start fenv queryOperation entityTypeName queryGlobals nestingLevel =
     bind (getp (g_context queryGlobals) ''verbose'') (\<lambda>flag.
     bind (verbose flag nestingLevel
            (''= Resolving root entity \"'' @ entityTypeName @ ''\".'')) (\<lambda>_.
     bind (getp queryOperation entityTypeName) (\<lambda>entityQuery.
     if \<not> truthy entityQuery
     then throw (Error (''Entity query \"'' @ entityTypeName
                   @ ''\" is missing under operation \"'' @ g_opName queryGlobals @ ''\".''))
     else bind (test (\<lambda>h. isObject h entityQuery)) (\<lambda>is_object.
     if \<not> is_object
     then throw (Error (''Expected entity query \"'' @ entityTypeName
                   @ ''\" under operation \"'' @ g_opName queryGlobals @ ''\" to be an object.''))
     else bind (from_or entityQuery entityTypeName) (\<lambda>entityResolverName.
     bind (getGlobalEntityResolver queryGlobals entityResolverName entityTypeName
            ''query result'' (nestingLevel + 1)) (\<lambda>entityResolver.
     bind (getp entityResolver ''invoke'') (\<lambda>invoke.
     bind (getp entityQuery ''args'') (\<lambda>args.
     bind (or_empty_object args) (\<lambda>args.
     bind (call fenv invoke [args, g_context queryGlobals]) (\<lambda>resolvedEntity.
     ret (entityQuery, entityResolverName, resolvedEntity)))))))))))"

definition resolveRootEntity_finish ::
  "nat \<Rightarrow> resolvers \<Rightarrow> jsval \<Rightarrow> string \<Rightarrow> IQueryGlobals \<Rightarrow> nat \<Rightarrow> jsval \<times> jsval \<times> jsval
     \<Rightarrow> unit M" where
  "resolveRootEntity_finish fuel fenv output entityTypeName queryGlobals nestingLevel started =
     (case started of (entityQuery, entityResolverName, resolvedEntity) \<Rightarrow>
     bind (test (\<lambda>h. isArray h resolvedEntity)) (\<lambda>is_array.
     bind (getp (g_context queryGlobals) ''verbose'') (\<lambda>flag.
     bind (verbose flag (nestingLevel + 1)
            (if is_array then ''Resolved an array of entities.''
             else ''Resolved a single entity.'')) (\<lambda>_.
     bind (clone_entity is_array resolvedEntity) (\<lambda>clonedEntity.
     bind (set_prop output entityTypeName clonedEntity) (\<lambda>_.
     resolveNestedEntities fuel fenv entityQuery clonedEntity entityResolverName
       entityTypeName queryGlobals (nestingLevel + 2)))))))"

definition resolveRootEntity ::
  "nat \<Rightarrow> resolvers \<Rightarrow> jsval \<Rightarrow> jsval \<Rightarrow> string \<Rightarrow> IQueryGlobals \<Rightarrow> nat \<Rightarrow> unit M" where
  "resolveRootEntity fuel fenv queryOperation output entityTypeName queryGlobals nestingLevel =
     bind (resolveRootEntity_start fenv queryOperation entityTypeName queryGlobals nestingLevel)
       (resolveRootEntity_finish fuel fenv output entityTypeName queryGlobals nestingLevel)"

definition miniql :: "nat \<Rightarrow> resolvers \<Rightarrow> jsval \<Rightarrow> jsval \<Rightarrow> jsval \<Rightarrow> jsval M" where
  "miniql fuel fenv rootQuery rootResolver context =
     bind (alloc (Obj [])) (\<lambda>output.
     bind (keys rootQuery) (\<lambda>opNames.
     if length opNames \<le> 0
     then throw (Error ''Query doesn't contain any operations.'')
     else
     bind (getp context ''verbose'') (\<lambda>flag.
     bind (verbose flag 0 ''** Executing query.'') (\<lambda>_.
     bind (for_each opNames (\<lambda>opName.
       bind (getp context ''verbose'') (\<lambda>flag.
       bind (verbose flag 1 (''= Invoking query operation \"'' @ opName @ ''\".'')) (\<lambda>_.
       bind (getQueryOperation rootQuery opName) (\<lambda>queryOperation.
       bind (getOperationResolver rootResolver opName) (\<lambda>operationResolver.
       bind (keys queryOperation) (\<lambda>entityTypeNames.
       for_each entityTypeNames (\<lambda>entityTypeName.
         resolveRootEntity fuel fenv queryOperation output entityTypeName
           \<lparr>g_operationResolver = operationResolver, g_opName = opName, g_context = context\<rparr>
           2)))))))) (\<lambda>_.
     ret output)))))"

section \<open>Observing results\<close>

text \<open>
  \<open>tree_of n h v\<close> unfolds the value \<open>v\<close> in the store \<open>h\<close> into a tree, following
  references to depth \<open>n\<close>; \<open>TCut\<close> marks a reference below that depth. It is used to
  state what an output looks like.
\<close>

datatype tree =
    TUndefined | TNull | TBool bool | TNum int | TStr string
  | TObj "(string \<times> tree) list" | TArr "tree list" | TFn nat | TCut

primrec tree_of :: "nat \<Rightarrow> hobj list \<Rightarrow> jsval \<Rightarrow> tree" where
  "tree_of 0 h v = (case v of
       Undefined \<Rightarrow> TUndefined | Null \<Rightarrow> TNull | Bool b \<Rightarrow> TBool b | Num i \<Rightarrow> TNum i
     | Str t \<Rightarrow> TStr t | Ref a \<Rightarrow> TCut)"
| "tree_of (Suc n) h v = (case v of
       Undefined \<Rightarrow> TUndefined | Null \<Rightarrow> TNull | Bool b \<Rightarrow> TBool b | Num i \<Rightarrow> TNum i
     | Str t \<Rightarrow> TStr t
     | Ref a \<Rightarrow> (case lookup h a of
                   None \<Rightarrow> TUndefined
                 | Some (Obj ps) \<Rightarrow>
                     TObj (map (\<lambda>k. (k, tree_of n h (own_prop ps k))) (own_keys ps))
                 | Some (Arr xs) \<Rightarrow> TArr (map (tree_of n h) xs)
                 | Some (Fn i) \<Rightarrow> TFn i))"

text \<open>The outcome of a run with the returned value unfolded to depth \<open>n\<close>.\<close>

definition result_tree ::
  "nat \<Rightarrow> ((error + jsval) \<times> state) option \<Rightarrow> (error + tree) option" where
  "result_tree n res =
     map_option (\<lambda>(r, s). case r of Inl e \<Rightarrow> Inl e | Inr v \<Rightarrow> Inr (tree_of n (heap s) v)) res"

text \<open>The lines a call of \<open>verbose\<close> adds to the console.\<close>

definition logged :: "jsval \<Rightarrow> nat \<Rightarrow> string \<Rightarrow> string list" where
  "logged flag nestingLevel msg =
     (if truthy flag then [replicate (nestingLevel * 4) CHR '' '' @ msg] else [])"

section \<open>What a run may change\<close>

text \<open>
  The notions used to state which stored objects a computation leaves alone.

  \<open>framed fenv\<close>: the resolvers only allocate; they never change an object that
  already exists.

  \<open>keeps n W h h'\<close>: from store \<open>h\<close> to store \<open>h'\<close> no object disappears or changes
  its kind, arrays and functions are unchanged, and a plain object at an address below
  \<open>n\<close> and outside \<open>W\<close> is unchanged.

  \<open>owned h parent\<close>: the objects \<open>resolveNestedEntities\<close> may assign to when it is given
  \<open>parent\<close>: the elements of \<open>parent\<close> when it is an array, \<open>parent\<close> itself otherwise.

  \<open>steps n W s s'\<close>: \<open>keeps\<close> for the stores of the two states, and every invocation made
  in between has, as its first argument, an object in \<open>W\<close> or one at an address from \<open>n\<close>
  on. \<open>guarded\<close> is \<open>steps\<close> under the condition that the assignments to \<open>parent\<close> are
  allowed by \<open>n\<close> and \<open>W\<close>. \<open>always R m\<close>: every run of \<open>m\<close> relates its initial and
  final state by \<open>R\<close>.
\<close>

definition is_plain :: "hobj \<Rightarrow> bool" where
  "is_plain ob = (case ob of Obj ps \<Rightarrow> True | _ \<Rightarrow> False)"

definition framed :: "resolvers \<Rightarrow> bool" where
  "framed fenv \<longleftrightarrow> (\<forall>i args h r h'. fenv i args h = Some (r, h') \<longrightarrow> prefix h h')"

definition keeps :: "nat \<Rightarrow> addr set \<Rightarrow> hobj list \<Rightarrow> hobj list \<Rightarrow> bool" where
  "keeps n W h h' \<longleftrightarrow>
     length h \<le> length h' \<and>
     (\<forall>a < length h.
        if is_plain (h ! a)
        then is_plain (h' ! a) \<and> (a < n \<and> a \<notin> W \<longrightarrow> h' ! a = h ! a)
        else h' ! a = h ! a)"

definition owned :: "hobj list \<Rightarrow> jsval \<Rightarrow> addr set" where
  "owned h parent = (case parent of
       Ref p \<Rightarrow> (case lookup h p of Some (Arr xs) \<Rightarrow> {a. Ref a \<in> set xs} | _ \<Rightarrow> {p})
     | _ \<Rightarrow> {})"

definition target_ok :: "nat \<Rightarrow> addr set \<Rightarrow> jsval \<Rightarrow> bool" where
  "target_ok n W x \<longleftrightarrow> (\<forall>a. x = Ref a \<longrightarrow> a < n \<longrightarrow> a \<in> W)"

definition parent_ok :: "nat \<Rightarrow> addr set \<Rightarrow> hobj list \<Rightarrow> jsval \<Rightarrow> bool" where
  "parent_ok n W h parent \<longleftrightarrow>
     (\<forall>p. parent = Ref p \<longrightarrow> p < length h) \<and> (\<forall>a \<in> owned h parent. a < n \<longrightarrow> a \<in> W)"

definition first_arg :: "nat \<times> jsval list \<times> (error + jsval) \<Rightarrow> jsval" where
  "first_arg c = (case fst (snd c) of [] \<Rightarrow> Undefined | x # xs \<Rightarrow> x)"

definition ext_for :: "jsval \<Rightarrow> state \<Rightarrow> state \<Rightarrow> bool" where
  "ext_for e s s' \<longleftrightarrow>
     prefix (heap s) (heap s') \<and>
     (\<exists>new. invocations s' = invocations s @ new \<and> (\<forall>c \<in> set new. first_arg c = e))"

definition steps :: "nat \<Rightarrow> addr set \<Rightarrow> state \<Rightarrow> state \<Rightarrow> bool" where
  "steps n W s s' \<longleftrightarrow>
     keeps n W (heap s) (heap s') \<and>
     (\<exists>new. invocations s' = invocations s @ new \<and>
        (\<forall>c \<in> set new. target_ok n W (first_arg c)))"

definition always :: "(state \<Rightarrow> state \<Rightarrow> bool) \<Rightarrow> 'a M \<Rightarrow> bool" where
  "always R m \<longleftrightarrow> (\<forall>s r s'. m s = Some (r, s') \<longrightarrow> R s s')"

definition guarded :: "nat \<Rightarrow> addr set \<Rightarrow> jsval \<Rightarrow> state \<Rightarrow> state \<Rightarrow> bool" where
  "guarded n W parent s s' \<longleftrightarrow>
     (n \<le> length (heap s) \<and> parent_ok n W (heap s) parent \<longrightarrow> steps n W s s')"

text \<open>What a value is cloned into: a record becomes one new record holding its own
  entries, an array one new array followed by one new record per element.\<close>

definition clone_objects :: "hobj list \<Rightarrow> jsval \<Rightarrow> hobj list" where
  "clone_objects h v = (case v of
       Ref a \<Rightarrow> (case lookup h a of
                   Some (Arr xs) \<Rightarrow>
                     Arr (map Ref [Suc (length h) ..< Suc (length h) + length xs])
                       # map (\<lambda>x. Obj (own_entries h x)) xs
                 | _ \<Rightarrow> [Obj (own_entries h v)])
     | _ \<Rightarrow> [Obj (own_entries h v)])"

definition grows :: "state \<Rightarrow> state \<Rightarrow> bool" where
  "grows s s' \<longleftrightarrow> prefix (heap s) (heap s') \<and> prefix (invocations s) (invocations s')"

definition heap_guarded :: "nat \<Rightarrow> addr set \<Rightarrow> state \<Rightarrow> state \<Rightarrow> bool" where
  "heap_guarded n W s s' \<longleftrightarrow> (n \<le> length (heap s) \<longrightarrow> keeps n W (heap s) (heap s'))"








section \<open>Example documents\<close>

text \<open>Concrete stores, used to run the engine on the scenarios of the specification.\<close>

definition initial :: "hobj list \<Rightarrow> state" where
  "initial h = \<lparr>heap = h, invocations = [], console = []\<rparr>"

definition no_resolvers :: resolvers where
  "no_resolvers i args h = None"

text \<open>
  Scenario E: the query \<^verbatim>\<open>{ delete: { user: {} } }\<close> at address 2, the registry
  \<^verbatim>\<open>{ get: {} }\<close> at address 4 and the context \<^verbatim>\<open>{}\<close> at address 5.
\<close>

definition scenarioE_heap :: "hobj list" where
  "scenarioE_heap =
     [Obj [], Obj [(''user'', Ref 0)], Obj [(''delete'', Ref 1)],
      Obj [], Obj [(''get'', Ref 3)], Obj []]"

text \<open>
  Scenarios A and B. The query
  \<^verbatim>\<open>{ get: { user: { args: <args>, resolve: { posts: <posts> } } } }\<close> is at address 4,
  with \<^verbatim>\<open>{ id: 1 }\<close> at address 0 and an empty object at address 13 to stand for
  \<^verbatim>\<open>posts: {}\<close>. The registry
  \<^verbatim>\<open>{ get: { user: { invoke: f0, nested: { posts: { invoke: f1 } } } } }\<close> is at
  address 11 and the context \<^verbatim>\<open>{}\<close> at address 12. The function \<open>f0\<close> returns a new
  \<^verbatim>\<open>{ id: 1, name: "Ann" }\<close>; \<open>f1\<close> returns \<open>posts_result\<close> when that is not a reference,
  and a new \<^verbatim>\<open>[{ id: 10 }]\<close> otherwise.
\<close>

definition scenarioB_heap :: "jsval \<Rightarrow> jsval \<Rightarrow> hobj list" where
  "scenarioB_heap args posts =
     [Obj [(''id'', Num 1)], Obj [(''posts'', posts)],
      Obj [(''args'', args), (''resolve'', Ref 1)],
      Obj [(''user'', Ref 2)], Obj [(''get'', Ref 3)], Fn 0, Fn 1, Obj [(''invoke'', Ref 6)],
      Obj [(''posts'', Ref 7)], Obj [(''invoke'', Ref 5), (''nested'', Ref 8)],
      Obj [(''user'', Ref 9)], Obj [(''get'', Ref 10)], Obj [], Obj []]"

definition scenarioB_resolvers :: "jsval \<Rightarrow> resolvers" where
  "scenarioB_resolvers posts_result i args h =
     (if i = 0
      then Some (Inr (Ref (length h)), h @ [Obj [(''id'', Num 1), (''name'', Str ''Ann'')]])
      else if i = 1
      then (case posts_result of
              Ref a \<Rightarrow> Some (Inr (Ref (length h)),
                         h @ [Arr [Ref (Suc (length h))], Obj [(''id'', Num 10)]])
            | v \<Rightarrow> Some (Inr v, h))
      else None)"



text \<open>The store of scenario B once the output object (at 14) and a record returned by a
  resolver (at 15) exist.\<close>

definition scenarioB_state :: state where
  "scenarioB_state =
     initial (scenarioB_heap (Ref 0) (Ref 13)
              @ [Obj [], Obj [(''id'', Num 1), (''name'', Str ''Ann'')]])"

definition scenarioB_globals :: IQueryGlobals where
  "scenarioB_globals = \<lparr>g_operationResolver = Ref 10, g_opName = ''get'', g_context = Ref 12\<rparr>"




section \<open>Basic facts\<close>

subsection \<open>Keys, lookups and messages\<close>

lemma set_own_keys: "set (own_keys ps) = fst ` set ps"
  apply (auto simp: own_keys_def Let_def List.map_filter_def image_iff split: option.splits)
   apply force
  apply (case_tac "array_index a")
   apply auto
  done

lemma own_keys_single: "own_keys [(k, v)] = [k]"
  by (cases "array_index k") (simp_all add: own_keys_def List.map_filter_def)

lemma lookup_append: "lookup h a = Some ob \<Longrightarrow> lookup (h @ h') a = Some ob"
  by (auto simp: lookup_def nth_append split: if_splits)






lemma get_prop_Obj:
  "lookup h a = Some (Obj ps) \<Longrightarrow> get_prop h (Ref a) k = Inr (own_prop ps k)"
  by (simp add: get_prop_def)

lemma object_keys_Obj:
  "lookup h a = Some (Obj ps) \<Longrightarrow> object_keys h (Ref a) = Inr (own_keys ps)"
  by (simp add: object_keys_def own_entries_def comp_def)

lemma isObject_Obj: "lookup h a = Some (Obj ps) \<Longrightarrow> isObject h (Ref a)"
  by (simp add: isObject_def)

subsection \<open>Running a computation step by step\<close>

lemma bind_assoc: "bind (bind m f) g = bind m (\<lambda>x. bind (f x) g)"
  by (rule ext) (simp add: bind_def split: option.split sum.split prod.split)

lemma bind_ret: "bind (ret x) f = f x"
  by (rule ext) (simp add: bind_def ret_def)

lemma bind_throw: "bind (throw e) f = throw e"
  by (rule ext) (simp add: bind_def throw_def)

lemma ret_apply: "ret x s = Some (Inr x, s)"
  by (simp add: ret_def)

lemma throw_apply: "throw e s = Some (Inl e, s)"
  by (simp add: throw_def)

lemma bind_getp:
  "bind (getp v k) f s =
     (case get_prop (heap s) v k of Inl e \<Rightarrow> Some (Inl e, s) | Inr x \<Rightarrow> f x s)"
  by (simp add: bind_def getp_def lift_def split: sum.split)

lemma bind_keys:
  "bind (keys v) f s =
     (case object_keys (heap s) v of Inl e \<Rightarrow> Some (Inl e, s) | Inr x \<Rightarrow> f x s)"
  by (simp add: bind_def keys_def lift_def split: sum.split)

lemma bind_test: "bind (test p) f s = f (p (heap s)) s"
  by (simp add: bind_def test_def)

lemma bind_type_of: "bind (type_of v) f s = f (typeof (heap s) v) s"
  by (simp add: bind_def type_of_def)

lemma bind_alloc:
  "bind (alloc ob) f s = f (Ref (length (heap s))) (s\<lparr>heap := heap s @ [ob]\<rparr>)"
  by (simp add: bind_def alloc_def)

lemma bind_verbose:
  "bind (verbose flag n msg) f s = f () (s\<lparr>console := console s @ logged flag n msg\<rparr>)"
  by (simp add: bind_def verbose_def logged_def)

lemmas exec = bind_assoc bind_ret bind_throw bind_getp bind_keys bind_test bind_type_of
  bind_alloc bind_verbose throw_apply ret_apply

subsection \<open>The two halves of the entity functions\<close>

lemma isFunction_Fn: "lookup h a = Some (Fn i) \<Longrightarrow> isFunction h (Ref a)"
  by (simp add: isFunction_def)

lemma bind_from_or:
  "lookup h e = Some (Obj fs) \<Longrightarrow> heap s = h \<Longrightarrow>
   bind (from_or (Ref e) key) k s =
     k (if own_prop fs ''from'' \<noteq> Undefined then own_prop fs ''from'' else Str key) s"
  by (auto simp: from_or_def exec get_prop_Obj)

lemma bind_or_empty_object:
  "bind (or_empty_object a) k s =
     (if truthy a then k a s else k (Ref (length (heap s))) (s\<lparr>heap := heap s @ [Obj []]\<rparr>))"
  by (simp add: or_empty_object_def exec)

lemma bind_call_Fn:
  "lookup h f = Some (Fn i) \<Longrightarrow> heap s = h \<Longrightarrow>
   bind (call fenv (Ref f) args) k s =
     (case fenv i args h of
        None \<Rightarrow> None
      | Some (res, h') \<Rightarrow>
          (case res of
             Inl e \<Rightarrow> Some (Inl e, s\<lparr>heap := h', invocations := invocations s @ [(i, args, res)]\<rparr>)
           | Inr v \<Rightarrow> k v (s\<lparr>heap := h', invocations := invocations s @ [(i, args, res)]\<rparr>)))"
  by (auto simp: call_def bind_def split: option.split sum.split prod.split)

lemma bind_eq_Inr: "m s = Some (Inr x, s') \<Longrightarrow> bind m k s = k x s'"
  by (simp add: bind_def)

lemma bind_eq_Inl: "m s = Some (Inl e, s') \<Longrightarrow> bind m k s = Some (Inl e, s')"
  by (simp add: bind_def)

lemma getGlobalEntityResolver_found:
  assumes "get_prop h (g_context g) ''verbose'' = Inr fl"
    and "get_prop h (g_operationResolver g) (to_string name) = Inr (Ref er)"
    and "lookup h er = Some (Obj ers)"
    and "own_prop ers ''invoke'' = Ref f"
    and "lookup h f = Some (Fn i)"
    and "heap s = h"
  shows "getGlobalEntityResolver g name tname loc lvl s
     = Some (Inr (Ref er), s\<lparr>console := console s @ logged fl lvl
         (''Getting global entity resolver \"'' @ to_string name
             @ ''\" to resolve entity type \"'' @ tname @ ''\".'')\<rparr>)"
  using assms
  by (auto simp: getGlobalEntityResolver_def exec get_prop_Obj isFunction_Fn)

lemma resolveRootEntity_start_run:
  assumes ctx: "get_prop (heap s) (g_context g) ''verbose'' = Inr fl"
    and qo: "get_prop (heap s) queryOperation key = Inr (Ref e)"
    and e: "lookup (heap s) e = Some (Obj fs)"
    and name: "name = (if own_prop fs ''from'' \<noteq> Undefined then own_prop fs ''from'' else Str key)"
    and reg: "get_prop (heap s) (g_operationResolver g) (to_string name) = Inr (Ref er)"
      "lookup (heap s) er = Some (Obj ers)" "own_prop ers ''invoke'' = Ref f"
      "lookup (heap s) f = Some (Fn i)"
    and a: "a = own_prop fs ''args''"
    and arg: "arg = (if truthy a then a else Ref (length (heap s)))"
    and h1: "h1 = (if truthy a then heap s else heap s @ [Obj []])"
  shows "\<exists>c. resolveRootEntity_start fenv queryOperation key g lvl s =
     (case fenv i [arg, g_context g] h1 of
        None \<Rightarrow> None
      | Some (res, h') \<Rightarrow>
          Some (case res of Inl err \<Rightarrow> Inl err | Inr v \<Rightarrow> Inr (Ref e, name, v),
                \<lparr>heap = h', invocations = invocations s @ [(i, [arg, g_context g], res)],
                 console = console s @ c\<rparr>))"
proof -
  note found = bind_eq_Inr[OF getGlobalEntityResolver_found[OF ctx reg]]
  have f': "lookup (heap s @ [Obj []]) f = Some (Fn i)"
    using reg(4) by (rule lookup_append)
  let ?c = "logged fl lvl (''= Resolving root entity \"'' @ key @ ''\".'')
     @ logged fl (Suc lvl) (''Getting global entity resolver \"'' @ to_string name
             @ ''\" to resolve entity type \"'' @ key @ ''\".'')"
  have "resolveRootEntity_start fenv queryOperation key g lvl s =
     (case fenv i [arg, g_context g] h1 of
        None \<Rightarrow> None
      | Some (res, h') \<Rightarrow>
          Some (case res of Inl err \<Rightarrow> Inl err | Inr v \<Rightarrow> Inr (Ref e, name, v),
                \<lparr>heap = h', invocations = invocations s @ [(i, [arg, g_context g], res)],
                 console = console s @ ?c\<rparr>))"
  proof (cases "truthy a")
    case True
    show ?thesis
      using ctx qo reg(3) True
      by (simp add: resolveRootEntity_start_def exec isObject_Obj[OF e] bind_from_or[OF e]
          name[symmetric] found get_prop_Obj[OF reg(2)] get_prop_Obj[OF e] bind_or_empty_object
          a[symmetric] bind_call_Fn[OF reg(4)] arg h1
          cong: option.case_cong sum.case_cong split: option.split sum.split)
  next
    case False
    show ?thesis
      using ctx qo reg(3) False
      by (simp add: resolveRootEntity_start_def exec isObject_Obj[OF e] bind_from_or[OF e]
          name[symmetric] found get_prop_Obj[OF reg(2)] get_prop_Obj[OF e] bind_or_empty_object
          a[symmetric] bind_call_Fn[OF f'] arg h1
          cong: option.case_cong sum.case_cong split: option.split sum.split)
  qed
  thus ?thesis by blast
qed


lemma resolveNestedEntity_start_run:
  assumes ctx: "get_prop (heap s) (g_context g) ''verbose'' = Inr fl"
    and reg: "get_prop (heap s) (g_operationResolver g) (to_string pname) = Inr (Ref er)"
      "lookup (heap s) er = Some (Obj ers)" "own_prop ers ''invoke'' = Ref f"
      "lookup (heap s) f = Some (Fn i)"
    and nq: "lookup (heap s) nq = Some (Obj nfs)"
    and lname: "lname = (if own_prop nfs ''from'' \<noteq> Undefined then own_prop nfs ''from'' else Str rel)"
    and nested: "own_prop ers ''nested'' = Ref nm" "lookup (heap s) nm = Some (Obj nms)"
      "own_prop nms (to_string lname) = Ref nr" "lookup (heap s) nr = Some (Obj nrs)"
      "own_prop nrs ''invoke'' = Ref nf" "lookup (heap s) nf = Some (Fn j)"
    and a: "a = own_prop nfs ''args''"
    and arg: "arg = (if truthy a then a else Ref (length (heap s)))"
    and h1: "h1 = (if truthy a then heap s else heap s @ [Obj []])"
  shows "\<exists>c. resolveNestedEntity_start fenv (Ref nq) pname ptn rel g lvl parent s =
     (case fenv j [parent, arg, g_context g] h1 of
        None \<Rightarrow> None
      | Some (res, h') \<Rightarrow>
          Some (case res of Inl err \<Rightarrow> Inl err | Inr v \<Rightarrow> Inr (lname, v),
                \<lparr>heap = h', invocations = invocations s @ [(j, [parent, arg, g_context g], res)],
                 console = console s @ c\<rparr>))"
proof -
  note found = bind_eq_Inr[OF getGlobalEntityResolver_found[OF ctx reg]]
  have f': "lookup (heap s @ [Obj []]) nf = Some (Fn j)"
    using nested(6) by (rule lookup_append)
  let ?c = "logged fl lvl (''= Resolving nested entity \"'' @ rel @ ''\".'')
     @ logged fl (Suc lvl) (''Getting global entity resolver \"'' @ to_string pname
             @ ''\" to resolve entity type \"'' @ ptn @ ''\".'')"
  have "resolveNestedEntity_start fenv (Ref nq) pname ptn rel g lvl parent s =
     (case fenv j [parent, arg, g_context g] h1 of
        None \<Rightarrow> None
      | Some (res, h') \<Rightarrow>
          Some (case res of Inl err \<Rightarrow> Inl err | Inr v \<Rightarrow> Inr (lname, v),
                \<lparr>heap = h', invocations = invocations s @ [(j, [parent, arg, g_context g], res)],
                 console = console s @ ?c\<rparr>))"
  proof (cases "truthy a")
    case True
    show ?thesis
      using ctx nested(1,3,5) True
      by (simp add: resolveNestedEntity_start_def exec bind_from_or[OF nq]
          lname[symmetric] found get_prop_Obj[OF reg(2)] get_prop_Obj[OF nq]
          get_prop_Obj[OF nested(2)] get_prop_Obj[OF nested(4)] bind_or_empty_object
          a[symmetric] bind_call_Fn[OF nested(6)] arg h1
          cong: option.case_cong sum.case_cong split: option.split sum.split)
  next
    case False
    show ?thesis
      using ctx nested(1,3,5) False
      by (simp add: resolveNestedEntity_start_def exec bind_from_or[OF nq]
          lname[symmetric] found get_prop_Obj[OF reg(2)] get_prop_Obj[OF nq]
          get_prop_Obj[OF nested(2)] get_prop_Obj[OF nested(4)] bind_or_empty_object
          a[symmetric] bind_call_Fn[OF f'] arg h1
          cong: option.case_cong sum.case_cong split: option.split sum.split)
  qed
  thus ?thesis by blast
qed


lemma bind_set_prop_Obj:
  "lookup h p = Some (Obj ps) \<Longrightarrow> heap s = h \<Longrightarrow>
   bind (set_prop (Ref p) k v) f s = f () (s\<lparr>heap := h[p := Obj (AList.update k v ps)]\<rparr>)"
  by (auto simp: set_prop_def bind_def)

lemma bind_clone_single:
  "heap s = h \<Longrightarrow>
   bind (clone_entity False v) k s =
     k (Ref (length h)) (s\<lparr>heap := h @ [Obj (own_entries h v)]\<rparr>)"
  by (auto simp: clone_entity_def object_assign_empty_def bind_def alloc_def)

lemma bind_clone_array:
  "lookup h a = Some (Arr xs) \<Longrightarrow> heap s = h \<Longrightarrow>
   bind (clone_entity True (Ref a)) k s =
     k (Ref (length h))
       (s\<lparr>heap := h @ [Arr (map Ref [Suc (length h) ..< Suc (length h) + length xs])]
                     @ map (\<lambda>x. Obj (own_entries h x)) xs\<rparr>)"
  by (auto simp: clone_entity_def array_map_assign_def bind_def Let_def)

lemma isArray_Arr: "lookup h a = Some (Arr xs) \<Longrightarrow> isArray h (Ref a)"
  by (simp add: isArray_def)

lemma resolveNestedEntity_finish_empty:
  assumes p: "lookup (heap s) p = Some (Obj ps)"
    and v: "v = Null \<or> v = Undefined \<or> (\<exists>a. v = Ref a \<and> lookup (heap s) a = Some (Arr []))"
  shows "resolveNestedEntity_finish (\<lambda>q. resolveNestedEntities fuel fenv q) nq rel g lvl (Ref p) (lname, v) s =
     resolveNestedEntities fuel fenv nq (Ref (length (heap s))) lname rel g (lvl + 2)
       (s\<lparr>heap := (heap s @ [if v = Null \<or> v = Undefined then Obj [] else Arr []])
                   [p := Obj (AList.update rel (Ref (length (heap s))) ps)]\<rparr>)"
proof -
  have p': "lookup (heap s @ [x]) p = Some (Obj ps)" for x
    using p by (rule lookup_append)
  from v show ?thesis
  proof (elim disjE exE conjE)
    assume "v = Null"
    thus ?thesis
      by (simp add: resolveNestedEntity_finish_def exec isArray_def bind_clone_single
          own_entries_def bind_set_prop_Obj[OF p'])
  next
    assume "v = Undefined"
    thus ?thesis
      by (simp add: resolveNestedEntity_finish_def exec isArray_def bind_clone_single
          own_entries_def bind_set_prop_Obj[OF p'])
  next
    fix a assume a: "v = Ref a" "lookup (heap s) a = Some (Arr [])"
    thus ?thesis
      by (simp add: resolveNestedEntity_finish_def exec isArray_Arr[OF a(2)]
          bind_clone_array[OF a(2)] bind_set_prop_Obj[OF p'])
  qed
qed

section \<open>Missing operation resolver\<close>



section \<open>A context that cannot be dereferenced\<close>

text \<open>
  Claim C10. For a query object with at least one operation and any registry, \<open>miniql\<close>
  called with the context \<^verbatim>\<open>null\<close> or \<^verbatim>\<open>undefined\<close> throws a \<open>TypeError\<close> at the first read
  of \<^verbatim>\<open>context.verbose\<close> (line 152), before any operation is looked at: the state reached
  differs from the initial one only by the empty \<^verbatim>\<open>output\<close> object.
\<close>

theorem null_context_TypeError:
  assumes "lookup (heap s) q = Some (Obj ops)" "ops \<noteq> []" "ctx = Null \<or> ctx = Undefined"
  shows "miniql fuel fenv (Ref q) rootResolver ctx s =
    Some (Inl (TypeError (''Cannot read properties of '' @ to_string ctx
                 @ '' (reading '' @ quoted ''verbose'' @ '')'')),
          s\<lparr>heap := heap s @ [Obj []]\<rparr>)"
proof -
  have q': "lookup (heap s @ [Obj []]) q = Some (Obj ops)"
    using assms(1) by (rule lookup_append)
  have "set (own_keys ops) \<noteq> {}" using assms(2) by (simp add: set_own_keys)
  hence k: "own_keys ops \<noteq> []" by auto
  show ?thesis using assms(3) k
    by (auto simp: miniql_def exec object_keys_Obj[OF q'] get_prop_def to_string_def)
qed

theorem null_context_TypeError_witness:
  "miniql 1 no_resolvers (Ref 2) (Ref 4) Null (initial scenarioE_heap) =
     Some (Inl (TypeError (''Cannot read properties of null (reading '' @ quoted ''verbose'' @ '')'')),
           initial (scenarioE_heap @ [Obj []]))"
  using null_context_TypeError
    [of "initial scenarioE_heap" 2 "[(''delete'', Ref 1)]" Null 1 no_resolvers "Ref 4"]
  by (simp add: initial_def scenarioE_heap_def lookup_def to_string_def)

section \<open>Entries of a resolve map\<close>

text \<open>
  Claim C1, as stated, fails. In scenario B with \<^verbatim>\<open>resolve: { posts: true }\<close> the engine
  rejects: line 276 requires every entry of a \<^verbatim>\<open>resolve\<close> map to be an object, and
  \<^verbatim>\<open>true\<close> is not. The run does not return
  \<^verbatim>\<open>{ user: { id: 1, name: "Ann", posts: [{ id: 10 }] } }\<close>.
\<close>

theorem resolve_true_is_rejected:
  "result_tree 4 (miniql 2 (scenarioB_resolvers (Ref 0)) (Ref 4) (Ref 11) (Ref 12)
       (initial (scenarioB_heap (Ref 0) (Bool True))))
     = Some (Inl (Error ''Unsupported type for \"resolve\" field: boolean.''))
   \<and> result_tree 4 (miniql 2 (scenarioB_resolvers (Ref 0)) (Ref 4) (Ref 11) (Ref 12)
       (initial (scenarioB_heap (Ref 0) (Bool True))))
     \<noteq> Some (Inr (TObj [(''user'', TObj [(''id'', TNum 1), (''name'', TStr ''Ann''),
                   (''posts'', TArr [TObj [(''id'', TNum 10)]])])]))"
  by code_simp

text \<open>
  Claim C1, amended. With the relation written as an empty nested query,
  \<^verbatim>\<open>resolve: { posts: {} }\<close>, scenario B returns
  \<^verbatim>\<open>{ user: { id: 1, name: "Ann", posts: [{ id: 10 }] } }\<close>. An entry of a \<^verbatim>\<open>resolve\<close> map
  that is not an object (such as \<^verbatim>\<open>true\<close>) makes \<open>resolveNestedEntities\<close> throw
  \<^verbatim>\<open>Unsupported type for "resolve" field: <typeof entry>.\<close> without changing the state.
\<close>

theorem resolve_entry_must_be_object:
  assumes e: "lookup (heap s) e = Some (Obj fs)"
    and rm: "own_prop fs ''resolve'' = Ref rm" "lookup (heap s) rm = Some (Obj [(rel, v)])"
    and v: "\<not> isObject (heap s) v"
  shows "resolveNestedEntities (Suc fuel) fenv (Ref e) parent pname ptn g lvl s
       = Some (Inl (Error (''Unsupported type for \"resolve\" field: ''
                     @ typeof (heap s) v @ ''.'')), s)
     \<and> result_tree 4 (miniql 2 (scenarioB_resolvers (Ref 0)) (Ref 4) (Ref 11) (Ref 12)
         (initial (scenarioB_heap (Ref 0) (Ref 13))))
       = Some (Inr (TObj [(''user'', TObj [(''id'', TNum 1), (''name'', TStr ''Ann''),
                     (''posts'', TArr [TObj [(''id'', TNum 10)]])])]))"
proof -
  have "resolveNestedEntities (Suc fuel) fenv (Ref e) parent pname ptn g lvl s
       = Some (Inl (Error (''Unsupported type for \"resolve\" field: ''
                     @ typeof (heap s) v @ ''.'')), s)"
    using rm(1) v
    by (simp add: exec get_prop_Obj[OF e] get_prop_Obj[OF rm(2)] object_keys_Obj[OF rm(2)]
        own_keys_single own_prop_def)
  moreover have "result_tree 4 (miniql 2 (scenarioB_resolvers (Ref 0)) (Ref 4) (Ref 11) (Ref 12)
         (initial (scenarioB_heap (Ref 0) (Ref 13))))
       = Some (Inr (TObj [(''user'', TObj [(''id'', TNum 1), (''name'', TStr ''Ann''),
                     (''posts'', TArr [TObj [(''id'', TNum 10)]])])]))"
    by code_simp
  ultimately show ?thesis by (rule conjI)
qed

theorem resolve_entry_must_be_object_witness:
  "resolveNestedEntities 1 no_resolvers (Ref 2) (Ref 13) (Str ''user'') ''user''
       \<lparr>g_operationResolver = Ref 10, g_opName = ''get'', g_context = Ref 12\<rparr> 4
       (initial (scenarioB_heap (Ref 0) (Bool True)))
     = Some (Inl (Error ''Unsupported type for \"resolve\" field: boolean.''),
             initial (scenarioB_heap (Ref 0) (Bool True)))"
  using resolve_entry_must_be_object
    [of "initial (scenarioB_heap (Ref 0) (Bool True))" 2
        "[(''args'', Ref 0), (''resolve'', Ref 1)]" 1 "''posts''" "Bool True" 0 no_resolvers
        "Ref 13" "Str ''user''" "''user''"
        "\<lparr>g_operationResolver = Ref 10, g_opName = ''get'', g_context = Ref 12\<rparr>" 4]
  by (simp add: initial_def scenarioB_heap_def lookup_def own_prop_def isObject_def typeof_def)

section \<open>The arguments passed to a resolver\<close>

text \<open>
  Claim C5, as stated, fails. The engine passes \<^verbatim>\<open>entityQuery.args || {}\<close>: an \<^verbatim>\<open>args\<close> field
  that is present but falsy is replaced as well. In scenario B with \<^verbatim>\<open>args: 0\<close> the
  \<^verbatim>\<open>user\<close> resolver (function 0) is called with the new empty object at address 15, not
  with \<^verbatim>\<open>0\<close>.
\<close>

theorem falsy_args_are_replaced:
  "miniql 2 (scenarioB_resolvers (Ref 0)) (Ref 4) (Ref 11) (Ref 12)
       (initial (scenarioB_heap (Num 0) (Ref 13)))
     = Some (Inr (Ref 14),
        \<lparr>heap =
           [Obj [(''id'', Num 1)], Obj [(''posts'', Ref 13)],
            Obj [(''args'', Num 0), (''resolve'', Ref 1)],
            Obj [(''user'', Ref 2)], Obj [(''get'', Ref 3)], Fn 0, Fn 1,
            Obj [(''invoke'', Ref 6)], Obj [(''posts'', Ref 7)],
            Obj [(''invoke'', Ref 5), (''nested'', Ref 8)],
            Obj [(''user'', Ref 9)], Obj [(''get'', Ref 10)], Obj [], Obj [],
            Obj [(''user'', Ref 17)], Obj [],
            Obj [(''id'', Num 1), (''name'', Str ''Ann'')],
            Obj [(''id'', Num 1), (''name'', Str ''Ann''), (''posts'', Ref 21)],
            Obj [], Arr [Ref 20], Obj [(''id'', Num 10)], Arr [Ref 22],
            Obj [(''id'', Num 10)]],
         invocations =
           [(0, [Ref 15, Ref 12], Inr (Ref 16)),
            (1, [Ref 17, Ref 18, Ref 12], Inr (Ref 19))],
         console = []\<rparr>)"
  by code_simp

text \<open>
  Claim C5, amended. For every entity query, root or nested, whose resolver is found:
  the resolver's \<^verbatim>\<open>invoke\<close> is called exactly once, with the query's \<^verbatim>\<open>args\<close> value itself
  when that value is truthy, and with a new empty object when \<^verbatim>\<open>args\<close> is absent or falsy
  (\<^verbatim>\<open>undefined\<close>, \<^verbatim>\<open>null\<close>, \<^verbatim>\<open>false\<close>, \<^verbatim>\<open>0\<close>, the empty string). A root resolver receives
  \<^verbatim>\<open>(args, context)\<close>, a nested one \<^verbatim>\<open>(parent, args, context)\<close>.
\<close>

theorem invoke_receives_args_or_empty_object:
  assumes ctx: "get_prop (heap s) (g_context g) ''verbose'' = Inr fl"
    and qo: "get_prop (heap s) queryOperation key = Inr (Ref e)"
    and e: "lookup (heap s) e = Some (Obj fs)"
    and name: "name = (if own_prop fs ''from'' \<noteq> Undefined then own_prop fs ''from'' else Str key)"
    and reg: "get_prop (heap s) (g_operationResolver g) (to_string name) = Inr (Ref er)"
      "lookup (heap s) er = Some (Obj ers)" "own_prop ers ''invoke'' = Ref f"
      "lookup (heap s) f = Some (Fn i)"
    and nq: "lookup (heap s) nq = Some (Obj nfs)"
    and lname: "lname = (if own_prop nfs ''from'' \<noteq> Undefined then own_prop nfs ''from'' else Str rel)"
    and nested: "own_prop ers ''nested'' = Ref nm" "lookup (heap s) nm = Some (Obj nms)"
      "own_prop nms (to_string lname) = Ref nr" "lookup (heap s) nr = Some (Obj nrs)"
      "own_prop nrs ''invoke'' = Ref nf" "lookup (heap s) nf = Some (Fn j)"
    and a: "a = own_prop fs ''args''" "na = own_prop nfs ''args''"
  shows "(\<exists>c. resolveRootEntity_start fenv queryOperation key g lvl s =
       (case fenv i [if truthy a then a else Ref (length (heap s)), g_context g]
               (if truthy a then heap s else heap s @ [Obj []]) of
          None \<Rightarrow> None
        | Some (res, h') \<Rightarrow>
            Some (case res of Inl err \<Rightarrow> Inl err | Inr v \<Rightarrow> Inr (Ref e, name, v),
                  \<lparr>heap = h',
                   invocations = invocations s
                     @ [(i, [if truthy a then a else Ref (length (heap s)), g_context g], res)],
                   console = console s @ c\<rparr>)))
     \<and> (\<exists>c. resolveNestedEntity_start fenv (Ref nq) name ptn rel g lvl parent s =
       (case fenv j [parent, if truthy na then na else Ref (length (heap s)), g_context g]
               (if truthy na then heap s else heap s @ [Obj []]) of
          None \<Rightarrow> None
        | Some (res, h') \<Rightarrow>
            Some (case res of Inl err \<Rightarrow> Inl err | Inr v \<Rightarrow> Inr (lname, v),
                  \<lparr>heap = h',
                   invocations = invocations s
                     @ [(j, [parent, if truthy na then na else Ref (length (heap s)),
                             g_context g], res)],
                   console = console s @ c\<rparr>)))"
  using resolveRootEntity_start_run[OF ctx qo e name reg a(1) refl refl]
    resolveNestedEntity_start_run[OF ctx reg nq lname nested a(2) refl refl]
  by (rule conjI)

theorem invoke_receives_args_or_empty_object_witness:
  "(\<exists>c. resolveRootEntity_start (scenarioB_resolvers (Ref 0)) (Ref 3) ''user''
         \<lparr>g_operationResolver = Ref 10, g_opName = ''get'', g_context = Ref 12\<rparr> 2
         (initial (scenarioB_heap (Ref 0) (Ref 13)))
      = Some (Inr (Ref 2, Str ''user'', Ref 14),
          \<lparr>heap = scenarioB_heap (Ref 0) (Ref 13) @ [Obj [(''id'', Num 1), (''name'', Str ''Ann'')]],
           invocations = [(0, [Ref 0, Ref 12], Inr (Ref 14))], console = c\<rparr>))
   \<and> (\<exists>c. resolveNestedEntity_start (scenarioB_resolvers (Ref 0)) (Ref 13) (Str ''user'') ''user''
         ''posts'' \<lparr>g_operationResolver = Ref 10, g_opName = ''get'', g_context = Ref 12\<rparr> 2
         (Ref 0) (initial (scenarioB_heap (Ref 0) (Ref 13)))
      = Some (Inr (Str ''posts'', Ref 15),
          \<lparr>heap = scenarioB_heap (Ref 0) (Ref 13)
                    @ [Obj [], Arr [Ref 16], Obj [(''id'', Num 10)]],
           invocations = [(1, [Ref 0, Ref 14, Ref 12], Inr (Ref 15))], console = c\<rparr>))"
  using invoke_receives_args_or_empty_object
    [where s = "initial (scenarioB_heap (Ref 0) (Ref 13))"
       and g = "\<lparr>g_operationResolver = Ref 10, g_opName = ''get'', g_context = Ref 12\<rparr>"
       and fl = Undefined and queryOperation = "Ref 3" and key = "''user''" and e = 2
       and fs = "[(''args'', Ref 0), (''resolve'', Ref 1)]" and name = "Str ''user''"
       and er = 9 and ers = "[(''invoke'', Ref 5), (''nested'', Ref 8)]" and f = 5 and i = 0
       and nq = 13 and nfs = "[]" and lname = "Str ''posts''" and rel = "''posts''"
       and nm = 8 and nms = "[(''posts'', Ref 7)]" and nr = 7 and nrs = "[(''invoke'', Ref 6)]"
       and nf = 6 and j = 1 and a = "Ref 0" and na = Undefined
       and fenv = "scenarioB_resolvers (Ref 0)" and lvl = 2 and ptn = "''user''"
       and parent = "Ref 0"]
  by (simp add: initial_def scenarioB_heap_def scenarioB_resolvers_def lookup_def own_prop_def
      get_prop_def to_string_def eval_nat_numeral)

section \<open>Missing nested resolver\<close>




section \<open>Empty results of a nested resolver\<close>

text \<open>
  Claim C9, as stated, fails. When the nested resolver returns \<^verbatim>\<open>null\<close>, the field attached
  to the parent is a new empty object (\<^verbatim>\<open>Object.assign({}, null)\<close>), not \<^verbatim>\<open>null\<close> or
  \<^verbatim>\<open>undefined\<close>: scenario B with \<open>posts\<close> resolving to \<^verbatim>\<open>null\<close> returns
  \<^verbatim>\<open>{ user: { id: 1, name: "Ann", posts: {} } }\<close>.
\<close>

theorem null_relation_becomes_empty_object:
  "result_tree 4 (miniql 2 (scenarioB_resolvers Null) (Ref 4) (Ref 11) (Ref 12)
       (initial (scenarioB_heap (Ref 0) (Ref 13))))
     = Some (Inr (TObj [(''user'', TObj [(''id'', TNum 1), (''name'', TStr ''Ann''),
                   (''posts'', TObj [])])]))"
  by code_simp

text \<open>
  Claim C9, amended. When a nested resolver returns \<^verbatim>\<open>null\<close> or \<^verbatim>\<open>undefined\<close>, the relation
  field of the (cloned) parent is set to a new empty object; when it returns an empty
  array, the field is set to a new empty array. Nested resolution then continues with
  that new value as the parent.
\<close>

theorem empty_result_is_cloned:
  assumes p: "lookup (heap s) p = Some (Obj ps)"
    and v: "v = Null \<or> v = Undefined \<or> (\<exists>a. v = Ref a \<and> lookup (heap s) a = Some (Arr []))"
  shows "resolveNestedEntity_finish (\<lambda>q. resolveNestedEntities fuel fenv q) nq rel g lvl
       (Ref p) (lname, v) s =
     resolveNestedEntities fuel fenv nq (Ref (length (heap s))) lname rel g (lvl + 2)
       (s\<lparr>heap := (heap s @ [if v = Null \<or> v = Undefined then Obj [] else Arr []])
                   [p := Obj (AList.update rel (Ref (length (heap s))) ps)]\<rparr>)"
  using resolveNestedEntity_finish_empty[OF p v] .

theorem empty_result_is_cloned_witness:
  "resolveNestedEntity_finish (\<lambda>q. resolveNestedEntities 1 no_resolvers q) (Ref 13) ''posts''
       \<lparr>g_operationResolver = Ref 10, g_opName = ''get'', g_context = Ref 12\<rparr> 4
       (Ref 0) (Str ''posts'', Null) (initial (scenarioB_heap (Ref 0) (Ref 13)))
     = Some (Inr (),
         initial ((scenarioB_heap (Ref 0) (Ref 13) @ [Obj []])
                    [0 := Obj [(''id'', Num 1), (''posts'', Ref 14)]]))"
  using empty_result_is_cloned
    [of "initial (scenarioB_heap (Ref 0) (Ref 13))" 0 "[(''id'', Num 1)]" Null 1 no_resolvers
        "Ref 13" "''posts''"
        "\<lparr>g_operationResolver = Ref 10, g_opName = ''get'', g_context = Ref 12\<rparr>" 4
        "Str ''posts''"]
  by (simp add: initial_def scenarioB_heap_def lookup_def exec get_prop_def own_prop_def)

section \<open>The engine assigns only to objects it has created\<close>

subsection \<open>Preserved objects\<close>

lemma keeps_refl: "keeps n W h h"
  by (simp add: keeps_def)

lemma keepsD:
  "keeps n W h h' \<Longrightarrow> a < length h \<Longrightarrow>
     a < length h' \<and>
     (if is_plain (h ! a)
      then is_plain (h' ! a) \<and> (a < n \<and> a \<notin> W \<longrightarrow> h' ! a = h ! a)
      else h' ! a = h ! a)"
  by (auto simp: keeps_def)

lemma keeps_length: "keeps n W h h' \<Longrightarrow> length h \<le> length h'"
  by (simp add: keeps_def)

lemma keeps_trans:
  assumes "keeps n W h1 h2" "keeps n W h2 h3"
  shows "keeps n W h1 h3"
  unfolding keeps_def
proof (intro conjI allI impI)
  show "length h1 \<le> length h3"
    using keeps_length[OF assms(1)] keeps_length[OF assms(2)] by simp
next
  fix a assume a: "a < length h1"
  note A = keepsD[OF assms(1) a]
  hence "a < length h2" by simp
  note B = keepsD[OF assms(2) this]
  show "if is_plain (h1 ! a)
        then is_plain (h3 ! a) \<and> (a < n \<and> a \<notin> W \<longrightarrow> h3 ! a = h1 ! a)
        else h3 ! a = h1 ! a"
    using A B by (auto split: if_splits)
qed

lemma prefix_nth: "prefix xs ys \<Longrightarrow> a < length xs \<Longrightarrow> ys ! a = xs ! a"
  by (auto simp: prefix_def nth_append)

lemma keeps_prefix: "prefix h h' \<Longrightarrow> keeps n W h h'"
  by (auto simp: keeps_def prefix_length_le prefix_nth)

lemma keeps_update:
  "lookup h a = Some (Obj ps) \<Longrightarrow> target_ok n W (Ref a) \<Longrightarrow> keeps n W h (h[a := Obj qs])"
  by (auto simp: keeps_def lookup_def target_ok_def is_plain_def nth_list_update split: if_splits)

lemma keeps_weaken:
  assumes "keeps n W h h'" "n0 \<le> n" "\<forall>a \<in> W. a < n0 \<longrightarrow> a \<in> W0"
  shows "keeps n0 W0 h h'"
  unfolding keeps_def
proof (intro conjI allI impI)
  show "length h \<le> length h'"
    using assms(1) by (rule keeps_length)
next
  fix a assume a: "a < length h"
  note A = keepsD[OF assms(1) a]
  show "if is_plain (h ! a)
        then is_plain (h' ! a) \<and> (a < n0 \<and> a \<notin> W0 \<longrightarrow> h' ! a = h ! a)
        else h' ! a = h ! a"
    using A assms(2,3) by (auto split: if_splits)
qed

lemma keeps_full_prefix: "keeps (length h) {} h h' \<Longrightarrow> prefix h h'"
proof -
  assume k: "keeps (length h) {} h h'"
  hence len: "length h \<le> length h'" and eq: "\<And>a. a < length h \<Longrightarrow> h' ! a = h ! a"
    by (auto simp: keeps_def split: if_splits)
  have "take (length h) h' = h"
    by (rule nth_equalityI) (use len eq in auto)
  thus ?thesis by (metis take_is_prefix)
qed

lemma steps_refl: "steps n W s s"
  by (simp add: steps_def keeps_refl)

lemma steps_trans: "steps n W s1 s2 \<Longrightarrow> steps n W s2 s3 \<Longrightarrow> steps n W s1 s3"
  unfolding steps_def by (auto intro: keeps_trans)

lemma ext_for_refl: "ext_for e s s"
  by (simp add: ext_for_def)

lemma ext_for_trans: "ext_for e s1 s2 \<Longrightarrow> ext_for e s2 s3 \<Longrightarrow> ext_for e s1 s3"
  unfolding ext_for_def by (auto intro: prefix_order.trans)

lemma ext_for_steps: "ext_for e s s' \<Longrightarrow> target_ok n W e \<Longrightarrow> steps n W s s'"
  unfolding ext_for_def steps_def by (auto intro: keeps_prefix)

lemma ext_for_console [simp]: "ext_for e s (s\<lparr>console := c\<rparr>)"
  by (simp add: ext_for_def)

lemma bindE:
  assumes "bind m f s = Some (r, s'')"
  obtains (Throw) e where "m s = Some (Inl e, s'')" "r = Inl e"
    | (Next) x s' where "m s = Some (Inr x, s')" "f x s' = Some (r, s'')"
  using assms by (auto simp: bind_def split: option.splits sum.splits prod.splits)

lemma always_ret: "(\<And>s. R s s) \<Longrightarrow> always R (ret x)"
  by (simp add: always_def ret_def)

lemma always_throw: "(\<And>s. R s s) \<Longrightarrow> always R (throw e)"
  by (simp add: always_def throw_def)

lemma always_bind:
  assumes "\<And>s1 s2 s3. R s1 s2 \<Longrightarrow> R s2 s3 \<Longrightarrow> R s1 s3"
    and "always R m" and "\<And>x. always R (f x)"
  shows "always R (bind m f)"
  unfolding always_def
proof (intro allI impI)
  fix s r s' assume "bind m f s = Some (r, s')"
  thus "R s s'"
  proof (cases rule: bindE)
    case (Throw e)
    thus ?thesis using assms(2) by (auto simp: always_def)
  next
    case (Next x s1)
    have "R s s1" using Next(1) assms(2) by (auto simp: always_def)
    moreover have "R s1 s'" using Next(2) assms(3) by (auto simp: always_def)
    ultimately show ?thesis by (rule assms(1))
  qed
qed

lemma always_if: "always R a \<Longrightarrow> always R b \<Longrightarrow> always R (if c then a else b)"
  by simp

lemma always_getp: "(\<And>s. R s s) \<Longrightarrow> always R (getp v k)"
  by (auto simp: always_def getp_def lift_def)

lemma always_keys: "(\<And>s. R s s) \<Longrightarrow> always R (keys v)"
  by (auto simp: always_def keys_def lift_def)

lemma always_elements: "(\<And>s. R s s) \<Longrightarrow> always R (elements v)"
  by (auto simp: always_def elements_def lift_def)

lemma always_test: "(\<And>s. R s s) \<Longrightarrow> always R (test p)"
  by (auto simp: always_def test_def)

lemma always_type_of: "(\<And>s. R s s) \<Longrightarrow> always R (type_of v)"
  by (auto simp: always_def type_of_def)

lemma always_for_each:
  assumes "\<And>s. R s s" "\<And>s1 s2 s3. R s1 s2 \<Longrightarrow> R s2 s3 \<Longrightarrow> R s1 s3"
    and "\<And>x. x \<in> set xs \<Longrightarrow> always R (f x)"
  shows "always R (for_each xs f)"
  using assms(3)
  by (induction xs) (auto intro!: always_ret always_bind assms(1) intro: assms(2))

lemma ext_for_verbose: "always (ext_for e) (verbose flag n msg)"
  by (auto simp: always_def verbose_def ext_for_def)

lemma ext_for_alloc: "always (ext_for e) (alloc ob)"
  by (auto simp: always_def alloc_def ext_for_def)

lemma ext_for_or_empty_object: "always (ext_for e) (or_empty_object a)"
  by (auto simp: or_empty_object_def intro!: always_ret ext_for_alloc ext_for_refl)

lemma ext_for_call:
  "framed fenv \<Longrightarrow> always (ext_for e) (call fenv f (e # args))"
  by (auto simp: always_def call_def ext_for_def framed_def throw_def first_arg_def
      split: jsval.splits option.splits hobj.splits)

lemmas ext_for_rules =
  always_bind[where R = "ext_for e" for e, OF ext_for_trans]
  always_ret[where R = "ext_for e" for e, OF ext_for_refl]
  always_throw[where R = "ext_for e" for e, OF ext_for_refl]
  always_getp[where R = "ext_for e" for e, OF ext_for_refl]
  always_keys[where R = "ext_for e" for e, OF ext_for_refl]
  always_test[where R = "ext_for e" for e, OF ext_for_refl]
  always_type_of[where R = "ext_for e" for e, OF ext_for_refl]
  always_elements[where R = "ext_for e" for e, OF ext_for_refl]
  always_if ext_for_verbose ext_for_alloc ext_for_or_empty_object

lemma ext_for_getGlobalEntityResolver:
  "always (ext_for e) (getGlobalEntityResolver g name tname loc lvl)"
  unfolding getGlobalEntityResolver_def by (intro ext_for_rules)

lemma ext_for_from_or: "always (ext_for e) (from_or q name)"
  unfolding from_or_def by (intro ext_for_rules)

lemma ext_for_nested_start:
  "framed fenv \<Longrightarrow>
   always (ext_for parent) (resolveNestedEntity_start fenv nq pname ptn rel g lvl parent)"
  unfolding resolveNestedEntity_start_def
  by (intro ext_for_rules ext_for_getGlobalEntityResolver ext_for_from_or ext_for_call)


lemma owned_keeps:
  assumes "keeps n W h h'" "\<forall>p. parent = Ref p \<longrightarrow> p < length h"
  shows "owned h' parent = owned h parent"
proof (cases parent)
  case (Ref p)
  hence p: "p < length h" using assms(2) by simp
  note A = keepsD[OF assms(1) p]
  show ?thesis
    using A p Ref
    by (cases "h ! p"; cases "h' ! p") (auto simp: owned_def lookup_def is_plain_def)
qed (simp_all add: owned_def)

lemma parent_ok_keeps:
  "parent_ok n W h parent \<Longrightarrow> keeps n W h h' \<Longrightarrow> parent_ok n W h' parent"
  using owned_keeps[of n W h h' parent] keeps_length[of n W h h']
  by (fastforce simp: parent_ok_def)

lemma steps_length: "steps n W s s' \<Longrightarrow> length (heap s) \<le> length (heap s')"
  by (auto simp: steps_def dest: keeps_length)

lemma guarded_refl: "guarded n W parent s s"
  by (simp add: guarded_def steps_refl)

lemma guarded_trans:
  assumes "guarded n W parent s1 s2" "guarded n W parent s2 s3"
  shows "guarded n W parent s1 s3"
  unfolding guarded_def
proof (intro impI, elim conjE)
  assume g: "n \<le> length (heap s1)" "parent_ok n W (heap s1) parent"
  hence 12: "steps n W s1 s2" using assms(1) by (simp add: guarded_def)
  hence "n \<le> length (heap s2)" "parent_ok n W (heap s2) parent"
    using g steps_length[OF 12] by (auto simp: steps_def intro: parent_ok_keeps)
  hence "steps n W s2 s3" using assms(2) by (simp add: guarded_def)
  with 12 show "steps n W s1 s3" by (rule steps_trans)
qed

lemma guarded_steps: "steps n W s s' \<Longrightarrow> guarded n W parent s s'"
  by (simp add: guarded_def)

lemma always_mono: "always R m \<Longrightarrow> (\<And>s s'. R s s' \<Longrightarrow> R' s s') \<Longrightarrow> always R' m"
  by (auto simp: always_def)

lemma test_effect: "test p s = Some (r, s') \<Longrightarrow> s' = s \<and> r = Inr (p (heap s))"
  by (auto simp: test_def)

lemma owned_update:
  "lookup h a = Some (Obj ps) \<Longrightarrow> owned (h[a := Obj qs]) x = owned h x"
  by (cases x) (auto simp: owned_def lookup_def nth_list_update split: if_splits)

lemma clone_effect:
  assumes "clone_entity b v s = Some (r, s1)"
  shows "(\<exists>e. r = Inl e \<and> s1 = s) \<or>
     (r = Inr (Ref (length (heap s))) \<and> prefix (heap s) (heap s1)
      \<and> length (heap s) < length (heap s1) \<and> invocations s1 = invocations s
      \<and> (\<forall>x \<in> owned (heap s1) (Ref (length (heap s))). length (heap s) \<le> x))"
  using assms
  by (auto simp: clone_entity_def object_assign_empty_def alloc_def array_map_assign_def
      throw_def Let_def owned_def lookup_def nth_append
      split: if_splits jsval.splits option.splits hobj.splits)

lemma set_prop_effect:
  assumes "set_prop t k v s = Some (r, s')"
  shows "s' = s \<or>
     (\<exists>a ps. t = Ref a \<and> lookup (heap s) a = Some (Obj ps) \<and> r = Inr ()
        \<and> s' = s\<lparr>heap := (heap s)[a := Obj (AList.update k v ps)]\<rparr>)"
  using assms
  by (auto simp: set_prop_def throw_def split: jsval.splits option.splits hobj.splits)

lemma tail_guarded:
  assumes IH: "\<And>par. always (guarded n W par) (rec par)"
    and t: "target_ok n W target"
  shows "always (guarded n W Undefined)
           (bind (clone_entity b v) (\<lambda>cl. bind (set_prop target k cl) (\<lambda>_. rec cl)))"
  unfolding always_def guarded_def
proof (intro allI impI, elim conjE)
  fix s r s'
  assume run: "bind (clone_entity b v) (\<lambda>cl. bind (set_prop target k cl) (\<lambda>_. rec cl)) s
      = Some (r, s')"
    and n: "n \<le> length (heap s)"
  let ?c = "Ref (length (heap s))"
  from run show "steps n W s s'"
  proof (cases rule: bindE)
    case (Throw e)
    from clone_effect[OF Throw(1)] have "s' = s" by auto
    thus ?thesis by (simp add: steps_refl)
  next
    case (Next cl s1)
    from clone_effect[OF Next(1)]
    have cl: "cl = ?c" and pre: "prefix (heap s) (heap s1)"
      and len: "length (heap s) < length (heap s1)"
      and inv: "invocations s1 = invocations s"
      and own: "\<forall>x \<in> owned (heap s1) ?c. length (heap s) \<le> x"
      by auto
    have 01: "steps n W s s1"
      using pre inv by (simp add: steps_def keeps_prefix)
    from Next(2) show ?thesis
    proof (cases rule: bindE)
      case (Throw e)
      from set_prop_effect[OF Throw(1)] have "s' = s1" by auto
      thus ?thesis using 01 by simp
    next
      case (Next u s2)
      have 12: "steps n W s1 s2 \<and> owned (heap s2) ?c = owned (heap s1) ?c
                 \<and> length (heap s2) = length (heap s1)"
        using set_prop_effect[OF Next(1)] t
        by (auto simp: steps_def keeps_refl keeps_update owned_update)
      have ok: "parent_ok n W (heap s2) cl"
        using 12 own len n by (auto simp: parent_ok_def cl)
      have "n \<le> length (heap s2)" using 12 len n by simp
      with ok Next(2) IH have "steps n W s2 s'"
        by (auto simp: always_def guarded_def)
      with 01 12 show ?thesis by (blast intro: steps_trans)
    qed
  qed
qed

lemmas guarded_rules =
  always_bind[where R = "guarded n W p" for n W p, OF guarded_trans]
  always_for_each[where R = "guarded n W p" for n W p, OF guarded_refl guarded_trans]
  always_ret[where R = "guarded n W p" for n W p, OF guarded_refl]
  always_throw[where R = "guarded n W p" for n W p, OF guarded_refl]
  always_getp[where R = "guarded n W p" for n W p, OF guarded_refl]
  always_keys[where R = "guarded n W p" for n W p, OF guarded_refl]
  always_test[where R = "guarded n W p" for n W p, OF guarded_refl]
  always_type_of[where R = "guarded n W p" for n W p, OF guarded_refl]
  always_if

lemma guarded_verbose: "always (guarded n W p) (verbose flag l msg)"
  by (auto simp: always_def verbose_def guarded_def steps_def keeps_refl)

lemma finish_guarded:
  assumes IH: "\<And>q par nm tn gg l. always (guarded n W par) (rec q par nm tn gg l)"
    and t: "target_ok n W target"
  shows "always (guarded n W Undefined)
           (resolveNestedEntity_finish rec nq rel g lvl target started)"
  unfolding resolveNestedEntity_finish_def
  by (cases started) (auto intro!: guarded_rules tail_guarded IH t)

lemma always_start_all:
  assumes "\<And>s. R s s" "\<And>s1 s2 s3. R s1 s2 \<Longrightarrow> R s2 s3 \<Longrightarrow> R s1 s3"
    and "\<And>x. x \<in> set xs \<Longrightarrow> always R (f x)"
  shows "always R (start_all f xs)"
  using assms(3)
proof (induction xs)
  case Nil
  show ?case by (simp add: always_ret assms(1))
next
  case (Cons x xs)
  have tl: "always R (bind (start_all f xs) (\<lambda>rs. ret (r # rs)))" for r
    using Cons by (intro always_bind always_ret assms(1)) (auto intro: assms(2))
  have hd: "always R (f x)" using Cons(2) by simp
  show ?case
    unfolding always_def
  proof (intro allI impI)
    fix s r s' assume "start_all f (x # xs) s = Some (r, s')"
    then obtain r1 s1 where 1: "f x s = Some (r1, s1)"
      and 2: "bind (start_all f xs) (\<lambda>rs. ret (r1 # rs)) s1 = Some (r, s')"
      by (auto split: option.splits)
    have "R s s1" using hd 1 by (auto simp: always_def)
    moreover have "R s1 s'" using tl 2 by (auto simp: always_def)
    ultimately show "R s s'" by (rule assms(2))
  qed
qed

lemma always_promise_all_map:
  assumes "\<And>s. R s s" "\<And>s1 s2 s3. R s1 s2 \<Longrightarrow> R s2 s3 \<Longrightarrow> R s1 s3"
    and "\<And>x. x \<in> set xs \<Longrightarrow> always R (start x)"
    and "\<And>x y. x \<in> set xs \<Longrightarrow> always R (finish x y)"
  shows "always R (promise_all_map start finish xs)"
  unfolding promise_all_map_def
  apply (rule always_bind[OF assms(2)], assumption, assumption)
   apply (rule always_start_all[OF assms(1,2)], assumption, assumption)
   apply (erule assms(3))
  apply (simp split: option.split)
  apply (intro conjI impI allI always_throw assms(1) always_for_each)
    apply (rule assms(2), assumption, assumption)
  apply (auto dest!: set_zip_leftD intro: assms(4))
  done

lemma elements_effect:
  "elements v s = Some (Inr xs, s') \<Longrightarrow>
     s' = s \<and> (\<exists>p. v = Ref p \<and> lookup (heap s) p = Some (Arr xs))"
  by (auto simp: elements_def lift_def split: jsval.splits option.splits hobj.splits)

lemma elements_throw: "elements v s = Some (Inl e, s') \<Longrightarrow> s' = s"
  by (auto simp: elements_def lift_def)

lemma start_guarded:
  "framed fenv \<Longrightarrow> target_ok n W x \<Longrightarrow>
   always (guarded n W Undefined) (resolveNestedEntity_start fenv nq pname ptn rel g lvl x)"
  by (rule always_mono[OF ext_for_nested_start]) (auto intro: guarded_steps ext_for_steps)

lemma parent_ok_Undefined [simp]: "parent_ok n W h Undefined"
  by (simp add: parent_ok_def owned_def)

lemma fan_out_guarded:
  assumes fr: "framed fenv"
    and IH: "\<And>q par nm tn gg l. always (guarded n W par) (rec q par nm tn gg l)"
  shows "always (guarded n W parent)
     (bind (test (\<lambda>h. isArray h parent)) (\<lambda>is_array.
        if is_array then
          bind (elements parent) (\<lambda>singleEntities.
            promise_all_map
              (resolveNestedEntity_start fenv nq pname ptn rel g lvl)
              (resolveNestedEntity_finish rec nq rel g lvl)
              singleEntities)
        else
          bind (resolveNestedEntity_start fenv nq pname ptn rel g lvl parent)
            (resolveNestedEntity_finish rec nq rel g lvl parent)))"
  unfolding always_def guarded_def
proof (intro allI impI, elim conjE)
  fix s r s'
  assume run: "bind (test (\<lambda>h. isArray h parent)) (\<lambda>is_array.
        if is_array then
          bind (elements parent) (\<lambda>singleEntities.
            promise_all_map
              (resolveNestedEntity_start fenv nq pname ptn rel g lvl)
              (resolveNestedEntity_finish rec nq rel g lvl)
              singleEntities)
        else
          bind (resolveNestedEntity_start fenv nq pname ptn rel g lvl parent)
            (resolveNestedEntity_finish rec nq rel g lvl parent)) s = Some (r, s')"
    and n: "n \<le> length (heap s)" and ok: "parent_ok n W (heap s) parent"
  have G: "guarded n W Undefined s s' \<Longrightarrow> steps n W s s'"
    using n by (simp add: guarded_def)
  from run show "steps n W s s'"
  proof (cases rule: bindE)
    case (Throw e)
    thus ?thesis by (auto dest: test_effect)
  next
    case (Next b s0)
    hence s0: "s0 = s" and b: "b = isArray (heap s) parent" by (auto dest: test_effect)
    show ?thesis
    proof (cases b)
      case True
      with Next(2) s0 have run2: "bind (elements parent) (\<lambda>singleEntities.
            promise_all_map
              (resolveNestedEntity_start fenv nq pname ptn rel g lvl)
              (resolveNestedEntity_finish rec nq rel g lvl)
              singleEntities) s = Some (r, s')" by simp
      from run2 show ?thesis
      proof (cases rule: bindE)
        case (Throw e)
        thus ?thesis by (auto dest: elements_throw simp: steps_refl)
      next
        case (Next xs s1)
        from elements_effect[OF Next(1)] obtain p where s1: "s1 = s"
          and p: "parent = Ref p" "lookup (heap s) p = Some (Arr xs)" by auto
        have tok: "target_ok n W x" if "x \<in> set xs" for x
          using ok p that by (auto simp: parent_ok_def owned_def target_ok_def)
        have "always (guarded n W Undefined)
            (promise_all_map
              (resolveNestedEntity_start fenv nq pname ptn rel g lvl)
              (resolveNestedEntity_finish rec nq rel g lvl) xs)"
          by (rule always_promise_all_map[OF guarded_refl guarded_trans])
             (auto intro: start_guarded[OF fr] finish_guarded[OF IH] tok)
        with Next(2) s1 show ?thesis by (auto simp: always_def intro: G)
      qed
    next
      case False
      have na: "\<not> isArray (heap s) parent" using False b by simp
      have tok: "target_ok n W parent"
      proof (cases parent)
        case (Ref p)
        from na have "owned (heap s) parent = {p}"
          by (auto simp: owned_def isArray_def Ref split: option.splits hobj.splits)
        thus ?thesis using ok by (auto simp: parent_ok_def target_ok_def Ref)
      qed (simp_all add: target_ok_def)
      have "always (guarded n W Undefined)
          (bind (resolveNestedEntity_start fenv nq pname ptn rel g lvl parent)
            (resolveNestedEntity_finish rec nq rel g lvl parent))"
        by (rule always_bind[OF guarded_trans])
           (auto intro: start_guarded[OF fr] finish_guarded[OF IH] tok)
      with Next(2) s0 False show ?thesis by (auto simp: always_def intro: G)
    qed
  qed
qed

lemma nested_guarded:
  assumes fr: "framed fenv"
  shows "always (guarded n W parent)
           (resolveNestedEntities fuel fenv eq parent pname ptn g lvl)"
proof (induction fuel arbitrary: eq parent pname ptn g lvl)
  case 0
  show ?case by (simp add: always_def)
next
  case (Suc fuel)
  show ?case
    unfolding resolveNestedEntities.simps
    by (intro guarded_rules fan_out_guarded[OF fr] Suc)
qed


subsection \<open>Cloning before assigning\<close>

lemma bind_clone:
  "heap s = h \<Longrightarrow>
   bind (clone_entity (isArray h v) v) k s =
     k (Ref (length h)) (s\<lparr>heap := h @ clone_objects h v\<rparr>)"
  by (auto simp: clone_entity_def object_assign_empty_def array_map_assign_def bind_def
      alloc_def Let_def isArray_def clone_objects_def
      split: jsval.splits option.splits hobj.splits)

lemma resolveNestedEntity_finish_run:
  assumes p: "lookup (heap s) p = Some (Obj ps)"
  shows "resolveNestedEntity_finish rec nq rel g lvl (Ref p) (lname, v) s =
     rec nq (Ref (length (heap s))) lname rel g (lvl + 2)
       (s\<lparr>heap := (heap s @ clone_objects (heap s) v)
                   [p := Obj (AList.update rel (Ref (length (heap s))) ps)]\<rparr>)"
proof -
  have p': "lookup (heap s @ xs) p = Some (Obj ps)" for xs
    using p by (rule lookup_append)
  show ?thesis
    by (simp add: resolveNestedEntity_finish_def exec bind_clone bind_set_prop_Obj[OF p'])
qed

lemma resolveRootEntity_finish_run:
  assumes out: "lookup (heap s) out = Some (Obj ops)"
    and ctx: "get_prop (heap s) (g_context g) ''verbose'' = Inr fl"
  shows "\<exists>c. resolveRootEntity_finish fuel fenv (Ref out) key g lvl (eq, name, v) s =
     resolveNestedEntities fuel fenv eq (Ref (length (heap s))) name key g (lvl + 2)
       (s\<lparr>console := console s @ c,
           heap := (heap s @ clone_objects (heap s) v)
                   [out := Obj (AList.update key (Ref (length (heap s))) ops)]\<rparr>)"
proof -
  have out': "lookup (heap s @ xs) out = Some (Obj ops)" for xs
    using out by (rule lookup_append)
  have "resolveRootEntity_finish fuel fenv (Ref out) key g lvl (eq, name, v) s =
     resolveNestedEntities fuel fenv eq (Ref (length (heap s))) name key g (lvl + 2)
       (s\<lparr>console := console s @ logged fl (lvl + 1)
             (if isArray (heap s) v then ''Resolved an array of entities.''
              else ''Resolved a single entity.''),
           heap := (heap s @ clone_objects (heap s) v)
                   [out := Obj (AList.update key (Ref (length (heap s))) ops)]\<rparr>)"
    using ctx
    by (simp add: resolveRootEntity_finish_def exec bind_clone bind_set_prop_Obj[OF out'])
  thus ?thesis by blast
qed

lemma grows_refl: "grows s s"
  by (simp add: grows_def)

lemma grows_trans: "grows s1 s2 \<Longrightarrow> grows s2 s3 \<Longrightarrow> grows s1 s3"
  by (auto simp: grows_def intro: prefix_order.trans)

lemma grows_verbose: "always grows (verbose flag n msg)"
  by (auto simp: always_def verbose_def grows_def)

lemma grows_alloc: "always grows (alloc ob)"
  by (auto simp: always_def alloc_def grows_def)

lemma grows_or_empty_object: "always grows (or_empty_object a)"
  by (auto simp: or_empty_object_def intro!: always_ret grows_alloc grows_refl)

lemma grows_call: "framed fenv \<Longrightarrow> always grows (call fenv f args)"
  by (auto simp: always_def call_def grows_def framed_def throw_def
      split: jsval.splits option.splits hobj.splits)

lemmas grows_rules =
  always_bind[where R = grows, OF grows_trans]
  always_ret[where R = grows, OF grows_refl]
  always_throw[where R = grows, OF grows_refl]
  always_getp[where R = grows, OF grows_refl]
  always_keys[where R = grows, OF grows_refl]
  always_test[where R = grows, OF grows_refl]
  always_type_of[where R = grows, OF grows_refl]
  always_if grows_verbose grows_alloc grows_or_empty_object

lemma grows_getGlobalEntityResolver:
  "always grows (getGlobalEntityResolver g name tname loc lvl)"
  unfolding getGlobalEntityResolver_def by (intro grows_rules)

lemma grows_from_or: "always grows (from_or q name)"
  unfolding from_or_def by (intro grows_rules)

lemma grows_root_start:
  "framed fenv \<Longrightarrow> always grows (resolveRootEntity_start fenv qo key g lvl)"
  unfolding resolveRootEntity_start_def
  by (intro grows_rules grows_getGlobalEntityResolver grows_from_or grows_call)

lemma grows_getQueryOperation: "always grows (getQueryOperation q opName)"
  unfolding getQueryOperation_def by (intro grows_rules)

lemma grows_getOperationResolver: "always grows (getOperationResolver q opName)"
  unfolding getOperationResolver_def by (intro grows_rules)

lemma heap_guarded_refl: "heap_guarded n W s s"
  by (simp add: heap_guarded_def keeps_refl)

lemma heap_guarded_trans:
  "heap_guarded n W s1 s2 \<Longrightarrow> heap_guarded n W s2 s3 \<Longrightarrow> heap_guarded n W s1 s3"
  unfolding heap_guarded_def
  by (metis keeps_length keeps_trans order_trans)

lemma grows_heap_guarded: "grows s s' \<Longrightarrow> heap_guarded n W s s'"
  by (simp add: grows_def heap_guarded_def keeps_prefix)

lemma guarded_heap_guarded: "guarded n W Undefined s s' \<Longrightarrow> heap_guarded n W s s'"
  by (simp add: guarded_def heap_guarded_def steps_def)

lemma root_finish_guarded:
  assumes fr: "framed fenv" and t: "target_ok n W output"
  shows "always (guarded n W Undefined)
           (resolveRootEntity_finish fuel fenv output key g lvl started)"
  unfolding resolveRootEntity_finish_def
  by (cases started)
     (auto intro!: guarded_rules guarded_verbose tail_guarded nested_guarded[OF fr] t)

lemma resolveRootEntity_heap_guarded:
  assumes fr: "framed fenv" and t: "target_ok n W output"
  shows "always (heap_guarded n W) (resolveRootEntity fuel fenv qo output key g lvl)"
  unfolding resolveRootEntity_def
  by (intro always_bind[OF heap_guarded_trans])
     (auto intro: always_mono[OF grows_root_start[OF fr]] grows_heap_guarded
        always_mono[OF root_finish_guarded[OF fr t]] guarded_heap_guarded)

lemmas heap_guarded_rules =
  always_bind[where R = "heap_guarded n W" for n W, OF heap_guarded_trans]
  always_for_each[where R = "heap_guarded n W" for n W, OF heap_guarded_refl heap_guarded_trans]
  always_ret[where R = "heap_guarded n W" for n W, OF heap_guarded_refl]
  always_throw[where R = "heap_guarded n W" for n W, OF heap_guarded_refl]
  always_getp[where R = "heap_guarded n W" for n W, OF heap_guarded_refl]
  always_keys[where R = "heap_guarded n W" for n W, OF heap_guarded_refl]
  always_if

lemma alwaysD: "always R m \<Longrightarrow> m s = Some (r, s') \<Longrightarrow> R s s'"
  by (auto simp: always_def)

lemma alloc_effect:
  "alloc ob s = Some (r, s') \<Longrightarrow>
     r = Inr (Ref (length (heap s))) \<and> s' = s\<lparr>heap := heap s @ [ob]\<rparr>"
  by (auto simp: alloc_def)

lemma miniql_prefix:
  assumes fr: "framed fenv"
    and run: "miniql fuel fenv rootQuery rootResolver ctx s = Some (r, s')"
  shows "prefix (heap s) (heap s')"
proof -
  let ?n = "length (heap s)"
  have t: "target_ok ?n {} (Ref ?n)" by (simp add: target_ok_def)
  have G: "always (heap_guarded ?n {}) m" if "always grows m" for m :: "'a M"
    using that by (rule always_mono) (rule grows_heap_guarded)
  from run[unfolded miniql_def] have "keeps ?n {} (heap s) (heap s')"
  proof (cases rule: bindE)
    case (Throw e)
    thus ?thesis by (auto dest: alloc_effect)
  next
    case (Next outp s1)
    from alloc_effect[OF Next(1)]
    have out: "outp = Ref ?n" and s1: "s1 = s\<lparr>heap := heap s @ [Obj []]\<rparr>" by auto
    from Next(2)[unfolded out] have "heap_guarded ?n {} s1 s'"
      by (rule alwaysD[rotated])
         (intro heap_guarded_rules G[OF grows_verbose] G[OF grows_getQueryOperation]
            G[OF grows_getOperationResolver] resolveRootEntity_heap_guarded[OF fr t])
    hence "keeps ?n {} (heap s1) (heap s')" by (simp add: heap_guarded_def s1)
    moreover have "keeps ?n {} (heap s) (heap s1)" by (simp add: keeps_prefix s1)
    ultimately show ?thesis by (rule keeps_trans[rotated])
  qed
  thus ?thesis by (rule keeps_full_prefix)
qed


lemma nested_frame:
  assumes fr: "framed fenv"
    and run: "resolveNestedEntities fuel fenv eq parent pname ptn g lvl s = Some (r, s')"
    and valid: "\<forall>p. parent = Ref p \<longrightarrow> p < length (heap s)"
  shows "steps (length (heap s)) (owned (heap s) parent) s s'"
proof -
  have "parent_ok (length (heap s)) (owned (heap s) parent) (heap s) parent"
    using valid by (simp add: parent_ok_def)
  with alwaysD[OF nested_guarded[OF fr] run] show ?thesis
    by (simp add: guarded_def)
qed

lemma owned_clone:
  assumes a: "lookup h a = Some (Obj ps)"
  shows "\<forall>x \<in> owned ((h @ clone_objects h v)[a := Obj qs]) (Ref (length h)). length h \<le> x"
proof -
  have "lookup (h @ clone_objects h v) a = Some (Obj ps)"
    using a by (rule lookup_append)
  hence "owned ((h @ clone_objects h v)[a := Obj qs]) (Ref (length h))
      = owned (h @ clone_objects h v) (Ref (length h))"
    by (rule owned_update)
  moreover have "\<forall>x \<in> owned (h @ clone_objects h v) (Ref (length h)). length h \<le> x"
    by (auto simp: owned_def lookup_def clone_objects_def nth_append
        split: jsval.splits option.splits hobj.splits if_splits)
  ultimately show ?thesis by simp
qed

lemma after_clone_frame:
  assumes fr: "framed fenv"
    and a: "lookup h a = Some (Obj ps)"
    and h2: "heap s2 = (h @ clone_objects h v)[a := Obj qs]"
    and run: "resolveNestedEntities fuel fenv eq (Ref (length h)) pname ptn g lvl s2
               = Some (r, s')"
  shows "(\<forall>b < length h. b \<noteq> a \<longrightarrow> heap s' ! b = h ! b)
     \<and> lookup (heap s') a = Some (Obj qs)
     \<and> (\<forall>a' xs. v = Ref a' \<and> lookup h a' = Some (Arr xs) \<longrightarrow>
          lookup (heap s') (length h)
            = Some (Arr (map Ref [Suc (length h) ..< Suc (length h) + length xs])))"
proof -
  have al: "a < length h" using a by (auto simp: lookup_def split: if_splits)
  have ne: "clone_objects h v \<noteq> []"
    by (auto simp: clone_objects_def split: jsval.splits option.splits hobj.splits)
  hence len2: "length h < length (heap s2)" by (simp add: h2)
  have "steps (length (heap s2)) (owned (heap s2) (Ref (length h))) s2 s'"
    using nested_frame[OF fr run] len2 by simp
  hence k: "keeps (length (heap s2)) (owned (heap s2) (Ref (length h))) (heap s2) (heap s')"
    by (simp add: steps_def)
  have own: "\<forall>x \<in> owned (heap s2) (Ref (length h)). length h \<le> x"
    unfolding h2 by (rule owned_clone[OF a])
  have same: "heap s' ! b = heap s2 ! b" if "b < length h" for b
  proof -
    have b2: "b < length (heap s2)" using that len2 by simp
    have "b \<notin> owned (heap s2) (Ref (length h))" using own that by auto
    with keepsD[OF k b2] b2 show ?thesis by (auto split: if_splits)
  qed
  have l': "length h < length (heap s')" using keeps_length[OF k] len2 by simp
  have 1: "\<forall>b < length h. b \<noteq> a \<longrightarrow> heap s' ! b = h ! b"
    using same by (auto simp: h2 nth_append)
  have 2: "lookup (heap s') a = Some (Obj qs)"
    using same[OF al] al l' by (auto simp: lookup_def h2)
  have 3: "lookup (heap s') (length h)
            = Some (Arr (map Ref [Suc (length h) ..< Suc (length h) + length xs]))"
    if "v = Ref a'" "lookup h a' = Some (Arr xs)" for a' xs
  proof -
    have "heap s2 ! length h = Arr (map Ref [Suc (length h) ..< Suc (length h) + length xs])"
      using that al by (auto simp: h2 clone_objects_def nth_append)
    with keepsD[OF k len2] l' show ?thesis by (auto simp: lookup_def is_plain_def)
  qed
  from 1 2 3 show ?thesis by blast
qed

lemma framed_scenarioB: "framed (scenarioB_resolvers x)"
  by (auto simp: framed_def scenarioB_resolvers_def split: if_splits jsval.splits)

text \<open>Claim C6. The engine never observably mutates a value a resolver returned, nor
  the query document or the resolver registry. With resolvers that only add objects to the
  store: (1) every object that exists when \<open>miniql\<close> starts is unchanged when it
  returns or throws; (2) once a root resolver has returned \<open>v\<close>, the rest of
  \<open>resolveRootEntity\<close>, nested resolution included, changes no existing object
  but \<open>output\<close>, whose key is set to an object that did not exist before, and for an
  array the new array holds new records only; (3) the same for a nested resolver, the
  only existing object changed being the parent entity the relation is attached to.\<close>

theorem engine_assigns_only_to_its_own_objects:
  assumes fr: "framed fenv"
  shows "(\<forall>r s'. miniql fuel fenv rootQuery rootResolver ctx s = Some (r, s')
            \<longrightarrow> prefix (heap s) (heap s'))
     \<and> (\<forall>out ops key g lvl eq name v r s'.
          lookup (heap s) out = Some (Obj ops)
          \<and> (\<exists>fl. get_prop (heap s) (g_context g) ''verbose'' = Inr fl)
          \<and> resolveRootEntity_finish fuel fenv (Ref out) key g lvl (eq, name, v) s = Some (r, s')
          \<longrightarrow> (\<forall>b < length (heap s). b \<noteq> out \<longrightarrow> heap s' ! b = heap s ! b)
            \<and> lookup (heap s') out
                = Some (Obj (AList.update key (Ref (length (heap s))) ops))
            \<and> (\<forall>a xs. v = Ref a \<and> lookup (heap s) a = Some (Arr xs) \<longrightarrow>
                 lookup (heap s') (length (heap s))
                   = Some (Arr (map Ref [Suc (length (heap s))
                                          ..< Suc (length (heap s)) + length xs]))))
     \<and> (\<forall>p ps nq rel g lvl lname v r s'.
          lookup (heap s) p = Some (Obj ps)
          \<and> resolveNestedEntity_finish (\<lambda>q. resolveNestedEntities fuel fenv q) nq rel g lvl
                (Ref p) (lname, v) s = Some (r, s')
          \<longrightarrow> (\<forall>b < length (heap s). b \<noteq> p \<longrightarrow> heap s' ! b = heap s ! b)
            \<and> lookup (heap s') p
                = Some (Obj (AList.update rel (Ref (length (heap s))) ps))
            \<and> (\<forall>a xs. v = Ref a \<and> lookup (heap s) a = Some (Arr xs) \<longrightarrow>
                 lookup (heap s') (length (heap s))
                   = Some (Arr (map Ref [Suc (length (heap s))
                                          ..< Suc (length (heap s)) + length xs]))))"
proof (intro conjI)
  show "\<forall>r s'. miniql fuel fenv rootQuery rootResolver ctx s = Some (r, s')
            \<longrightarrow> prefix (heap s) (heap s')"
    using miniql_prefix[OF fr] by blast
next
  show "\<forall>out ops key g lvl eq name v r s'.
          lookup (heap s) out = Some (Obj ops)
          \<and> (\<exists>fl. get_prop (heap s) (g_context g) ''verbose'' = Inr fl)
          \<and> resolveRootEntity_finish fuel fenv (Ref out) key g lvl (eq, name, v) s = Some (r, s')
          \<longrightarrow> (\<forall>b < length (heap s). b \<noteq> out \<longrightarrow> heap s' ! b = heap s ! b)
            \<and> lookup (heap s') out
                = Some (Obj (AList.update key (Ref (length (heap s))) ops))
            \<and> (\<forall>a xs. v = Ref a \<and> lookup (heap s) a = Some (Arr xs) \<longrightarrow>
                 lookup (heap s') (length (heap s))
                   = Some (Arr (map Ref [Suc (length (heap s))
                                          ..< Suc (length (heap s)) + length xs])))"
  proof (intro allI impI, elim conjE exE)
    fix out ops key g lvl eq name v r s' fl
    assume out: "lookup (heap s) out = Some (Obj ops)"
      and ctx: "get_prop (heap s) (g_context g) ''verbose'' = Inr fl"
      and run: "resolveRootEntity_finish fuel fenv (Ref out) key g lvl (eq, name, v) s
                  = Some (r, s')"
    from resolveRootEntity_finish_run[OF out ctx, of fuel fenv key lvl eq name v] run
    obtain c where run': "resolveNestedEntities fuel fenv eq (Ref (length (heap s))) name key g
         (lvl + 2)
         (s\<lparr>console := console s @ c,
             heap := (heap s @ clone_objects (heap s) v)
                     [out := Obj (AList.update key (Ref (length (heap s))) ops)]\<rparr>)
        = Some (r, s')" by auto
    have h2: "heap (s\<lparr>console := console s @ c,
             heap := (heap s @ clone_objects (heap s) v)
                     [out := Obj (AList.update key (Ref (length (heap s))) ops)]\<rparr>)
        = (heap s @ clone_objects (heap s) v)
                     [out := Obj (AList.update key (Ref (length (heap s))) ops)]" by simp
    from after_clone_frame[OF fr out h2 run']
    show "(\<forall>b < length (heap s). b \<noteq> out \<longrightarrow> heap s' ! b = heap s ! b)
              \<and> lookup (heap s') out
                  = Some (Obj (AList.update key (Ref (length (heap s))) ops))
              \<and> (\<forall>a xs. v = Ref a \<and> lookup (heap s) a = Some (Arr xs) \<longrightarrow>
                   lookup (heap s') (length (heap s))
                     = Some (Arr (map Ref [Suc (length (heap s))
                                            ..< Suc (length (heap s)) + length xs])))" .
  qed
next
  show "\<forall>p ps nq rel g lvl lname v r s'.
          lookup (heap s) p = Some (Obj ps)
          \<and> resolveNestedEntity_finish (\<lambda>q. resolveNestedEntities fuel fenv q) nq rel g lvl
                (Ref p) (lname, v) s = Some (r, s')
          \<longrightarrow> (\<forall>b < length (heap s). b \<noteq> p \<longrightarrow> heap s' ! b = heap s ! b)
            \<and> lookup (heap s') p
                = Some (Obj (AList.update rel (Ref (length (heap s))) ps))
            \<and> (\<forall>a xs. v = Ref a \<and> lookup (heap s) a = Some (Arr xs) \<longrightarrow>
                 lookup (heap s') (length (heap s))
                   = Some (Arr (map Ref [Suc (length (heap s))
                                          ..< Suc (length (heap s)) + length xs])))"
  proof (intro allI impI, elim conjE)
    fix p ps nq rel g lvl lname v r s'
    assume p: "lookup (heap s) p = Some (Obj ps)"
      and run: "resolveNestedEntity_finish (\<lambda>q. resolveNestedEntities fuel fenv q) nq rel g lvl
                  (Ref p) (lname, v) s = Some (r, s')"
    have h2: "heap (s\<lparr>heap := (heap s @ clone_objects (heap s) v)
                     [p := Obj (AList.update rel (Ref (length (heap s))) ps)]\<rparr>)
        = (heap s @ clone_objects (heap s) v)
                     [p := Obj (AList.update rel (Ref (length (heap s))) ps)]" by simp
    from after_clone_frame[OF fr p h2 run[unfolded resolveNestedEntity_finish_run[OF p]]]
    show "(\<forall>b < length (heap s). b \<noteq> p \<longrightarrow> heap s' ! b = heap s ! b)
              \<and> lookup (heap s') p
                  = Some (Obj (AList.update rel (Ref (length (heap s))) ps))
              \<and> (\<forall>a xs. v = Ref a \<and> lookup (heap s) a = Some (Arr xs) \<longrightarrow>
                   lookup (heap s') (length (heap s))
                     = Some (Arr (map Ref [Suc (length (heap s))
                                            ..< Suc (length (heap s)) + length xs])))" .
  qed
qed

theorem engine_assigns_only_to_its_own_objects_witness:
  "(\<exists>r s'. miniql 2 (scenarioB_resolvers (Ref 0)) (Ref 4) (Ref 11) (Ref 12) scenarioB_state
              = Some (r, s')
          \<and> prefix (heap scenarioB_state) (heap s'))
   \<and> (\<exists>r s'. resolveRootEntity_finish 2 (scenarioB_resolvers (Ref 0)) (Ref 14) ''user''
                scenarioB_globals 2 (Ref 2, Str ''user'', Ref 15) scenarioB_state
              = Some (r, s')
          \<and> (\<forall>b < 16. b \<noteq> 14 \<longrightarrow> heap s' ! b = heap scenarioB_state ! b)
          \<and> lookup (heap s') 14 = Some (Obj [(''user'', Ref 16)]))
   \<and> (\<exists>r s'. resolveNestedEntity_finish
                (\<lambda>q. resolveNestedEntities 2 (scenarioB_resolvers (Ref 0)) q) (Ref 13) ''posts''
                scenarioB_globals 2 (Ref 14) (Str ''posts'', Ref 15) scenarioB_state
              = Some (r, s')
          \<and> (\<forall>b < 16. b \<noteq> 14 \<longrightarrow> heap s' ! b = heap scenarioB_state ! b)
          \<and> lookup (heap s') 14 = Some (Obj [(''posts'', Ref 16)]))"
proof -
  note T = engine_assigns_only_to_its_own_objects
    [OF framed_scenarioB [of "Ref 0"], where fuel = 2 and s = scenarioB_state
       and rootQuery = "Ref 4" and rootResolver = "Ref 11" and ctx = "Ref 12"]
  have len: "length (heap scenarioB_state) = 16"
    by (simp add: scenarioB_state_def initial_def scenarioB_heap_def)
  have out: "lookup (heap scenarioB_state) 14 = Some (Obj [])"
    by (simp add: scenarioB_state_def initial_def scenarioB_heap_def lookup_def)
  have ctx: "get_prop (heap scenarioB_state) (g_context scenarioB_globals) ''verbose''
      = Inr Undefined"
    by (simp add: scenarioB_state_def initial_def scenarioB_heap_def lookup_def
        scenarioB_globals_def get_prop_def own_prop_def)
  have "miniql 2 (scenarioB_resolvers (Ref 0)) (Ref 4) (Ref 11) (Ref 12) scenarioB_state \<noteq> None"
    by code_simp
  then obtain r1 s1 where r1: "miniql 2 (scenarioB_resolvers (Ref 0)) (Ref 4) (Ref 11) (Ref 12)
      scenarioB_state = Some (r1, s1)" by auto
  have "resolveRootEntity_finish 2 (scenarioB_resolvers (Ref 0)) (Ref 14) ''user''
                scenarioB_globals 2 (Ref 2, Str ''user'', Ref 15) scenarioB_state \<noteq> None"
    by code_simp
  then obtain r2 s2 where r2: "resolveRootEntity_finish 2 (scenarioB_resolvers (Ref 0)) (Ref 14)
      ''user'' scenarioB_globals 2 (Ref 2, Str ''user'', Ref 15) scenarioB_state = Some (r2, s2)"
    by auto
  have "resolveNestedEntity_finish
                (\<lambda>q. resolveNestedEntities 2 (scenarioB_resolvers (Ref 0)) q) (Ref 13) ''posts''
                scenarioB_globals 2 (Ref 14) (Str ''posts'', Ref 15) scenarioB_state \<noteq> None"
    by code_simp
  then obtain r3 s3 where r3: "resolveNestedEntity_finish
                (\<lambda>q. resolveNestedEntities 2 (scenarioB_resolvers (Ref 0)) q) (Ref 13) ''posts''
                scenarioB_globals 2 (Ref 14) (Str ''posts'', Ref 15) scenarioB_state
      = Some (r3, s3)" by auto
  have 1: "prefix (heap scenarioB_state) (heap s1)"
    by (rule T [THEN conjunct1, rule_format, OF r1])
  note T2 = T [THEN conjunct2, THEN conjunct1, rule_format, OF conjI, OF out conjI,
      OF exI r2, OF ctx]
  note T3 = T [THEN conjunct2, THEN conjunct2, rule_format, OF conjI, OF out r3]
  have 2: "(\<forall>b < 16. b \<noteq> 14 \<longrightarrow> heap s2 ! b = heap scenarioB_state ! b)
     \<and> lookup (heap s2) 14 = Some (Obj [(''user'', Ref 16)])"
    using T2 by (simp add: len)
  have 3: "(\<forall>b < 16. b \<noteq> 14 \<longrightarrow> heap s3 ! b = heap scenarioB_state ! b)
     \<and> lookup (heap s3) 14 = Some (Obj [(''posts'', Ref 16)])"
    using T3 by (simp add: len)
  from r1 1 r2 2 r3 3 show ?thesis by blast
qed



section \<open>The \<^verbatim>\<open>from\<close> field of an entity query\<close>









section \<open>A relation on an array of parent entities\<close>



































end
